theory Spec2Isabelle
  imports Complex_Main
begin

section \<open>Tensors\<close>

text \<open>
  A tensor is a nested list, outermost dimension first: a batch of images is indexed
  \<open>xs ! n ! ch ! r ! c\<close> (sample, channel, row, column), a convolution kernel
  \<open>w ! o ! ci ! i ! j\<close> (output channel, input channel, kernel row, kernel column).
  Entries are real numbers: the arithmetic of the library's floating-point type is
  not modelled.
\<close>

type_synonym tensor2 = "real list list"
type_synonym tensor3 = "real list list list"
type_synonym tensor4 = "real list list list list"

text \<open>The faults the code can raise.\<close>

datatype fault =
    AssertionError string
  | IndexError
  | RuntimeError
  | ValueError
  | TypeError
  | NameError string

text \<open>\<open>shape3 C H W x\<close>: the nested list \<open>x\<close> is a tensor of size \<open>C \<times> H \<times> W\<close>.\<close>

definition shape2 :: "nat \<Rightarrow> nat \<Rightarrow> 'a list list \<Rightarrow> bool" where
  "shape2 H W t \<longleftrightarrow> length t = H \<and> list_all (\<lambda>row. length row = W) t"

definition shape3 :: "nat \<Rightarrow> nat \<Rightarrow> nat \<Rightarrow> 'a list list list \<Rightarrow> bool" where
  "shape3 C H W t \<longleftrightarrow> length t = C \<and> list_all (shape2 H W) t"

definition shape4 :: "nat \<Rightarrow> nat \<Rightarrow> nat \<Rightarrow> nat \<Rightarrow> 'a list list list list \<Rightarrow> bool" where
  "shape4 N C H W t \<longleftrightarrow> length t = N \<and> list_all (shape3 C H W) t"

text \<open>\<open>t.fill_(v)\<close>: every entry becomes \<open>v\<close>, the shape stays.\<close>

definition fill4 :: "real \<Rightarrow> tensor4 \<Rightarrow> tensor4" where
  "fill4 v t = map (map (map (map (\<lambda>_. v)))) t"

text \<open>Slice assignments of zero: \<open>v[j0:] = 0\<close> on a vector, \<open>t[i0:] = 0\<close> and
  \<open>t[:i0] = 0\<close> on the rows of a matrix. A slice bound beyond the end selects nothing.\<close>

definition zero_from :: "nat \<Rightarrow> real list \<Rightarrow> real list" where
  "zero_from j0 v = take j0 v @ map (\<lambda>_. 0) (drop j0 v)"

definition zero_rows_from :: "nat \<Rightarrow> tensor2 \<Rightarrow> tensor2" where
  "zero_rows_from i0 t = take i0 t @ map (map (\<lambda>_. 0)) (drop i0 t)"

definition zero_rows_upto :: "nat \<Rightarrow> tensor2 \<Rightarrow> tensor2" where
  "zero_rows_upto i0 t = map (map (\<lambda>_. 0)) (take i0 t) @ drop i0 t"

text \<open>\<open>k[i, j0:] = 0\<close> on one kernel; the caller checks that row \<open>i\<close> exists.\<close>

definition zero_row_tail :: "nat \<Rightarrow> nat \<Rightarrow> tensor2 \<Rightarrow> tensor2" where
  "zero_row_tail i j0 k = k[i := zero_from j0 (k ! i)]"

text \<open>Elementwise product and sum of two tensors of the same shape.\<close>

definition mul4 :: "tensor4 \<Rightarrow> tensor4 \<Rightarrow> tensor4" where
  "mul4 a b = map2 (map2 (map2 (map2 (*)))) a b"

definition add4 :: "tensor4 \<Rightarrow> tensor4 \<Rightarrow> tensor4" where
  "add4 a b = map2 (map2 (map2 (map2 (+)))) a b"

section \<open>Convolution layers\<close>

text \<open>
  \<open>nn.Conv2d\<close> with the arguments the code passes: channel counts, kernel size and
  padding. Stride, dilation and groups keep the library's defaults (1), the padding is
  zero padding and the layer has a bias. The library draws the initial weights and
  biases at random; here they are given by the functions \<open>winit\<close> and \<open>binit\<close>.
\<close>

record Conv2d =
  in_channels :: nat
  out_channels :: nat
  kernel_size :: "nat \<times> nat"
  padding :: "nat \<times> nat"
  weight :: tensor4
  bias :: "real list"

record MaskedConv2d = Conv2d +
  mask :: tensor4

definition Conv2d_init ::
  "nat \<Rightarrow> nat \<Rightarrow> nat \<times> nat \<Rightarrow> nat \<times> nat \<Rightarrow> (nat \<Rightarrow> nat \<Rightarrow> nat \<Rightarrow> nat \<Rightarrow> real) \<Rightarrow> (nat \<Rightarrow> real)
     \<Rightarrow> Conv2d" where
  "Conv2d_init cin cout ks pad winit binit =
     \<lparr>in_channels = cin, out_channels = cout, kernel_size = ks, padding = pad,
      weight = map (\<lambda>oc. map (\<lambda>ci. map (\<lambda>i. map (\<lambda>j. winit oc ci i j) [0..<snd ks])
                 [0..<fst ks]) [0..<cin]) [0..<cout],
      bias = map binit [0..<cout]\<rparr>"

text \<open>
  The mask of \<open>MaskedConv2d.__init__\<close>, statement by statement: a clone of the weight
  filled with ones, then \<open>mask[:, :, H // 2, W // 2 + (mask_type == 'B'):] = 0\<close>, then
  \<open>mask[:, :, H // 2 + 1:] = 0\<close>.
\<close>

definition build_mask :: "tensor4 \<Rightarrow> nat \<Rightarrow> nat \<Rightarrow> string \<Rightarrow> tensor4" where
  "build_mask w H W mask_type =
     (let m1 = fill4 1 w;
          m2 = map (map (zero_row_tail (H div 2)
                  (W div 2 + (if mask_type = ''B'' then 1 else 0)))) m1;
          m3 = map (map (zero_rows_from (H div 2 + 1))) m2
      in m3)"

text \<open>
  The constructor: the base class is initialised first, then the assertion on the mask
  type, then the mask is built. The integer index \<open>H // 2\<close> is out of range exactly
  when the kernel has no rows.
\<close>

definition mask_type_message :: string where
  "mask_type_message = ''Mask type must be 'A' or 'B'' @ [CHR 0x27]"

definition MaskedConv2d_init ::
  "nat \<Rightarrow> nat \<Rightarrow> nat \<times> nat \<Rightarrow> nat \<times> nat \<Rightarrow> string \<Rightarrow> (nat \<Rightarrow> nat \<Rightarrow> nat \<Rightarrow> nat \<Rightarrow> real)
     \<Rightarrow> (nat \<Rightarrow> real) \<Rightarrow> fault + MaskedConv2d" where
  "MaskedConv2d_init cin cout ks pad mask_type winit binit =
     (let base = Conv2d_init cin cout ks pad winit binit in
      if mask_type \<notin> set [''A'', ''B'']
      then Inl (AssertionError mask_type_message)
      else
        let (H, W) = kernel_size base in
        if H div 2 \<ge> H then Inl IndexError
        else Inr (Conv2d.extend base
                    (MaskedConv2d.fields (build_mask (weight base) H W mask_type))))"

section \<open>Applying a layer\<close>

text \<open>
  The size of an image tensor (channels \<open>\<times>\<close> rows \<open>\<times>\<close> columns), read off its first
  channel and first row.
\<close>

definition img_height :: "tensor3 \<Rightarrow> nat" where
  "img_height x = (case x of [] \<Rightarrow> 0 | ch # _ \<Rightarrow> length ch)"

definition img_width :: "tensor3 \<Rightarrow> nat" where
  "img_width x = (case x of [] \<Rightarrow> 0 | ch # _ \<Rightarrow> (case ch of [] \<Rightarrow> 0 | row # _ \<Rightarrow> length row))"

text \<open>
  Entry \<open>(a, b)\<close> of a channel after zero padding by \<open>(ph, pw)\<close>: the channel's entry
  \<open>(a - ph, b - pw)\<close> inside the image, 0 in the border.
\<close>

definition pad_get :: "tensor2 \<Rightarrow> nat \<times> nat \<Rightarrow> nat \<Rightarrow> nat \<Rightarrow> real" where
  "pad_get ch pad a b =
     (if fst pad \<le> a \<and> a - fst pad < length ch \<and>
         snd pad \<le> b \<and> b - snd pad < length (ch ! (a - fst pad))
      then ch ! (a - fst pad) ! (b - snd pad) else 0)"

text \<open>
  The library's convolution (a cross-correlation, stride 1): output channel \<open>oc\<close> at
  row \<open>r\<close> and column \<open>c\<close> is the bias plus the sum over input channels and kernel
  positions of weight times padded input.
\<close>

definition conv_at ::
  "tensor4 \<Rightarrow> real list \<Rightarrow> nat \<Rightarrow> nat \<times> nat \<Rightarrow> nat \<times> nat \<Rightarrow> tensor3 \<Rightarrow> nat \<Rightarrow> nat \<Rightarrow> nat \<Rightarrow> real"
  where
  "conv_at w b cin ks pad x oc r c =
     b ! oc + sum_list (map (\<lambda>ci. sum_list (map (\<lambda>i. sum_list (map (\<lambda>j.
        w ! oc ! ci ! i ! j * pad_get (x ! ci) pad (r + i) (c + j))
       [0..<snd ks])) [0..<fst ks])) [0..<cin])"

definition out_size :: "nat \<Rightarrow> nat \<Rightarrow> nat \<Rightarrow> nat" where
  "out_size n p k = n + 2 * p + 1 - k"

definition conv2d_image ::
  "tensor4 \<Rightarrow> real list \<Rightarrow> nat \<Rightarrow> nat \<Rightarrow> nat \<times> nat \<Rightarrow> nat \<times> nat \<Rightarrow> tensor3 \<Rightarrow> tensor3" where
  "conv2d_image w b cin cout ks pad x =
     map (\<lambda>oc. map (\<lambda>r. map (\<lambda>c. conv_at w b cin ks pad x oc r c)
            [0..<out_size (img_width x) (snd pad) (snd ks)])
          [0..<out_size (img_height x) (fst pad) (fst ks)])
       [0..<cout]"

text \<open>
  \<open>nn.Conv2d.forward\<close> on a batch. The library raises a RuntimeError when the
  channel count of the input is not the layer's, and when the kernel is larger than
  the padded input.
\<close>

definition Conv2d_forward :: "'a Conv2d_scheme \<Rightarrow> tensor4 \<Rightarrow> fault + tensor4" where
  "Conv2d_forward L xs =
     (if \<not> list_all (\<lambda>x. length x = in_channels L) xs then Inl RuntimeError
      else if \<not> list_all (\<lambda>x. fst (kernel_size L) \<le> img_height x + 2 * fst (padding L) \<and>
                               snd (kernel_size L) \<le> img_width x + 2 * snd (padding L)) xs
      then Inl RuntimeError
      else Inr (map (conv2d_image (weight L) (bias L) (in_channels L) (out_channels L)
                       (kernel_size L) (padding L)) xs))"

text \<open>
  \<open>MaskedConv2d.forward\<close>: the stored weight is multiplied by the mask in place, then
  the base class convolves. The layer is returned with its new weight, also when the
  convolution raises.
\<close>

definition MaskedConv2d_forward :: "MaskedConv2d \<Rightarrow> tensor4 \<Rightarrow> MaskedConv2d \<times> (fault + tensor4)" where
  "MaskedConv2d_forward L xs =
     (let L' = L\<lparr>weight := mul4 (weight L) (mask L)\<rparr> in (L', Conv2d_forward L' xs))"

definition relu :: "tensor4 \<Rightarrow> tensor4" where
  "relu xs = map (map (map (map (max 0)))) xs"

definition sigmoid :: "real \<Rightarrow> real" where
  "sigmoid z = 1 / (1 + exp (- z))"

section \<open>The network\<close>

datatype layer = Masked MaskedConv2d | ReLU | Conv Conv2d

record PixelCNN =
  layers :: "layer list"

text \<open>
  The hidden layers of the constructor's loop, one masked convolution of type 'B' and
  one ReLU per index; \<open>winit l\<close> and \<open>binit l\<close> are the initial parameters of the
  \<open>l\<close>-th convolution of the network.
\<close>

fun hidden_layers ::
  "nat \<Rightarrow> nat \<times> nat \<Rightarrow> nat \<times> nat \<Rightarrow> (nat \<Rightarrow> nat \<Rightarrow> nat \<Rightarrow> nat \<Rightarrow> nat \<Rightarrow> real) \<Rightarrow> (nat \<Rightarrow> nat \<Rightarrow> real)
     \<Rightarrow> nat list \<Rightarrow> fault + layer list" where
  "hidden_layers hc ks pad winit binit [] = Inr []"
| "hidden_layers hc ks pad winit binit (l # ls) =
     (case MaskedConv2d_init hc hc ks pad ''B'' (winit l) (binit l) of
        Inl e \<Rightarrow> Inl e
      | Inr L \<Rightarrow>
          (case hidden_layers hc ks pad winit binit ls of
             Inl e \<Rightarrow> Inl e
           | Inr rest \<Rightarrow> Inr (Masked L # ReLU # rest)))"

text \<open>
  \<open>PixelCNN.__init__\<close>. The defaults of the source are 1 input channel, 64 hidden
  channels, kernel size 7 and 6 layers; \<open>range(num_layers - 2)\<close> is empty when
  \<open>num_layers\<close> is below 2.
\<close>

definition PixelCNN_init ::
  "nat \<Rightarrow> nat \<Rightarrow> nat \<Rightarrow> int \<Rightarrow> (nat \<Rightarrow> nat \<Rightarrow> nat \<Rightarrow> nat \<Rightarrow> nat \<Rightarrow> real) \<Rightarrow> (nat \<Rightarrow> nat \<Rightarrow> real)
     \<Rightarrow> fault + PixelCNN" where
  "PixelCNN_init input_channels hidden_channels ksize num_layers winit binit =
     (let ks = (ksize, ksize);
          pad = (ksize div 2, ksize div 2);
          nh = nat (num_layers - 2)
      in case MaskedConv2d_init input_channels hidden_channels ks pad ''A'' (winit 0) (binit 0) of
           Inl e \<Rightarrow> Inl e
         | Inr first \<Rightarrow>
             (case hidden_layers hidden_channels ks pad winit binit [1..<Suc nh] of
                Inl e \<Rightarrow> Inl e
              | Inr hidden \<Rightarrow>
                  Inr \<lparr>layers = Masked first # ReLU # hidden @
                         [Conv (Conv2d_init hidden_channels input_channels (1, 1) (0, 0)
                                  (winit (Suc nh)) (binit (Suc nh)))]\<rparr>))"

text \<open>
  Calling one layer, and the loop of \<open>PixelCNN.forward\<close> over the layers: each layer
  is returned as the call left it, and a fault stops the loop.
\<close>

fun layer_call :: "layer \<Rightarrow> tensor4 \<Rightarrow> layer \<times> (fault + tensor4)" where
  "layer_call (Masked L) xs = (case MaskedConv2d_forward L xs of (L', res) \<Rightarrow> (Masked L', res))"
| "layer_call ReLU xs = (ReLU, Inr (relu xs))"
| "layer_call (Conv L) xs = (Conv L, Conv2d_forward L xs)"

fun run_layers :: "layer list \<Rightarrow> tensor4 \<Rightarrow> layer list \<times> (fault + tensor4)" where
  "run_layers [] xs = ([], Inr xs)"
| "run_layers (l # ls) xs =
     (case layer_call l xs of
        (l', Inl e) \<Rightarrow> (l' # ls, Inl e)
      | (l', Inr ys) \<Rightarrow> (case run_layers ls ys of (ls', res) \<Rightarrow> (l' # ls', res)))"

definition PixelCNN_forward :: "PixelCNN \<Rightarrow> tensor4 \<Rightarrow> PixelCNN \<times> (fault + tensor4)" where
  "PixelCNN_forward net xs =
     (case run_layers (layers net) xs of
        (ls', res) \<Rightarrow>
          (net\<lparr>layers := ls'\<rparr>,
           case res of Inl e \<Rightarrow> Inl e | Inr ys \<Rightarrow> Inr (map (map (map (map sigmoid))) ys)))"

section \<open>Splitting and completing images\<close>

text \<open>
  \<open>split_top_bottom\<close>: two clones of the batch, \<open>top_half[:, :, 14:, :] = 0\<close> and
  \<open>bottom_half[:, :, :14, :] = 0\<close>.
\<close>

definition split_top_bottom :: "tensor4 \<Rightarrow> tensor4 \<times> tensor4" where
  "split_top_bottom images =
     (let top_half = map (map (zero_rows_from 14)) images;
          bottom_half = map (map (zero_rows_upto 14)) images
      in (top_half, bottom_half))"

text \<open>
  \<open>complete_images\<close>, in two parts. The first part, on the first batch of the
  loader: the batch is split, the network runs on its top half, and
  \<open>completed_images = top_half + predicted_bottom_half\<close>. The sum is elementwise; the
  library raises a RuntimeError when the two sizes differ (its broadcasting of
  dimensions of size 1 is not modelled).
\<close>

definition sizes4 :: "tensor4 \<Rightarrow> nat list list list" where
  "sizes4 t = map (map (map length)) t"

definition complete_batch :: "PixelCNN \<Rightarrow> tensor4 \<Rightarrow> PixelCNN \<times> (fault + tensor4 \<times> tensor4)" where
  "complete_batch model images =
     (let (top_half, _) = split_top_bottom images in
      case PixelCNN_forward model top_half of
        (model', Inl e) \<Rightarrow> (model', Inl e)
      | (model', Inr predicted_bottom_half) \<Rightarrow>
          if sizes4 top_half = sizes4 predicted_bottom_half
          then (model', Inr (top_half, add4 top_half predicted_bottom_half))
          else (model', Inl RuntimeError))"

text \<open>
  The second part, the display: \<open>plt.subplots(3, num_samples)\<close>, then for every
  \<open>i\<close> in \<open>range(num_samples)\<close> the images \<open>images[i]\<close>, \<open>top_half[i]\<close> and
  \<open>completed_images[i]\<close> are squeezed and drawn in column \<open>i\<close>. The figure is the
  list of its columns, each holding the three tensors drawn in it.
  \<^item> \<open>plt.subplots\<close> raises a ValueError when \<open>num_samples\<close> is not positive; with one
    column it returns a one-dimensional array of axes, and \<open>axes[0, i]\<close> raises an
    IndexError.
  \<^item> \<open>images[i]\<close> raises an IndexError as soon as \<open>i\<close> reaches the size of the batch.
  \<^item> \<open>imshow\<close> raises a TypeError unless the squeezed image has two dimensions, or
    three with a last dimension of 3 or 4. The three batches have the same size, so
    the first image decides.
\<close>

type_synonym figure = "(tensor3 \<times> tensor3 \<times> tensor3) list"

definition squeezed_shape :: "tensor3 \<Rightarrow> nat list" where
  "squeezed_shape x = filter (\<lambda>d. d \<noteq> 1) [length x, img_height x, img_width x]"

definition drawable :: "tensor3 \<Rightarrow> bool" where
  "drawable x \<longleftrightarrow>
     (let s = squeezed_shape x
      in length s = 2 \<or> (length s = 3 \<and> (last s = 3 \<or> last s = 4)))"

definition show_samples :: "int \<Rightarrow> tensor4 \<Rightarrow> tensor4 \<Rightarrow> tensor4 \<Rightarrow> fault + figure" where
  "show_samples num_samples images top_half completed_images =
     (if num_samples \<le> 0 then Inl ValueError
      else if num_samples = 1 then Inl IndexError
      else if images = [] then Inl IndexError
      else if \<not> drawable (images ! 0) then Inl TypeError
      else if length images < nat num_samples then Inl IndexError
      else Inr (map (\<lambda>i. (images ! i, top_half ! i, completed_images ! i))
                  [0..<nat num_samples]))"

text \<open>
  The whole routine; \<open>num_samples\<close> is 5 when the caller gives none. The loop over
  the loader stops after the first batch, and an empty loader displays nothing.
\<close>

definition complete_images ::
  "PixelCNN \<Rightarrow> tensor4 list \<Rightarrow> int \<Rightarrow> PixelCNN \<times> (fault + figure option)" where
  "complete_images model test_loader num_samples =
     (case test_loader of
        [] \<Rightarrow> (model, Inr None)
      | images # _ \<Rightarrow>
          (case complete_batch model images of
             (model', Inl e) \<Rightarrow> (model', Inl e)
           | (model', Inr (top_half, completed_images)) \<Rightarrow>
               (case show_samples num_samples images top_half completed_images of
                  Inl e \<Rightarrow> (model', Inl e)
                | Inr fig \<Rightarrow> (model', Inr (Some fig)))))"

section \<open>Repeated calls and training\<close>

text \<open>
  The result of the last of \<open>m + 1\<close> successive calls of a masked layer on the same
  input, each call starting from the layer as the previous one left it.
\<close>

fun repeat_forward :: "nat \<Rightarrow> MaskedConv2d \<Rightarrow> tensor4 \<Rightarrow> MaskedConv2d \<times> (fault + tensor4)" where
  "repeat_forward 0 L xs = MaskedConv2d_forward L xs"
| "repeat_forward (Suc m) L xs = repeat_forward m (fst (MaskedConv2d_forward L xs)) xs"

text \<open>
  The optimizer is built from \<open>model.parameters()\<close>: the weight and the bias of every
  convolution, not the masks, which are registered as buffers. Its update rule belongs
  to the library; a step is modelled by an arbitrary function \<open>opt\<close> that maps the
  optimizer's state, the network after the forward pass, the outputs and the targets
  to a new state and a new weight and bias for the layer at each index.
\<close>

type_synonym 's optimizer =
  "'s \<Rightarrow> PixelCNN \<Rightarrow> tensor4 \<Rightarrow> tensor4 \<Rightarrow> 's \<times> (nat \<Rightarrow> tensor4 \<times> real list)"

fun set_parameters :: "tensor4 \<times> real list \<Rightarrow> layer \<Rightarrow> layer" where
  "set_parameters (w, b) (Masked L) = Masked (L\<lparr>weight := w, bias := b\<rparr>)"
| "set_parameters (w, b) (Conv L) = Conv (L\<lparr>weight := w, bias := b\<rparr>)"
| "set_parameters (w, b) ReLU = ReLU"

definition optimizer_step :: "(nat \<Rightarrow> tensor4 \<times> real list) \<Rightarrow> PixelCNN \<Rightarrow> PixelCNN" where
  "optimizer_step new net =
     net\<lparr>layers := map (\<lambda>(i, l). set_parameters (new i) l) (enumerate 0 (layers net))\<rparr>"

text \<open>
  One iteration of the training loop: split, forward pass, loss against the bottom half
  (the loss raises a ValueError when output and target differ in size), optimizer
  step. The state is returned as the iteration left it, with the fault if one was
  raised.
\<close>

definition train_step ::
  "'s optimizer \<Rightarrow> 's \<times> PixelCNN \<Rightarrow> tensor4 \<Rightarrow> ('s \<times> PixelCNN) \<times> fault option" where
  "train_step opt s images =
     (let (top_half, bottom_half) = split_top_bottom images in
      case PixelCNN_forward (snd s) top_half of
        (model1, Inl e) \<Rightarrow> ((fst s, model1), Some e)
      | (model1, Inr outputs) \<Rightarrow>
          if sizes4 outputs \<noteq> sizes4 bottom_half then ((fst s, model1), Some ValueError)
          else let (st', new) = opt (fst s) model1 outputs bottom_half
               in ((st', optimizer_step new model1), None))"

fun train_batches ::
  "'s optimizer \<Rightarrow> 's \<times> PixelCNN \<Rightarrow> tensor4 list \<Rightarrow> ('s \<times> PixelCNN) \<times> fault option" where
  "train_batches opt s [] = (s, None)"
| "train_batches opt s (images # rest) =
     (case train_step opt s images of
        (s', Some e) \<Rightarrow> (s', Some e)
      | (s', None) \<Rightarrow> train_batches opt s' rest)"

text \<open>The epochs of the training loop; each epoch is the list of batches the
  shuffling loader yields in that pass.\<close>

fun train ::
  "'s optimizer \<Rightarrow> 's \<times> PixelCNN \<Rightarrow> tensor4 list list \<Rightarrow> ('s \<times> PixelCNN) \<times> fault option" where
  "train opt s [] = (s, None)"
| "train opt s (epoch # rest) =
     (case train_batches opt s epoch of
        (s', Some e) \<Rightarrow> (s', Some e)
      | (s', None) \<Rightarrow> train opt s' rest)"

text \<open>What a layer keeps apart from its weight and bias, and the masks of a network.\<close>

fun layer_fixed :: "layer \<Rightarrow> layer" where
  "layer_fixed (Masked L) = Masked (L\<lparr>weight := [], bias := []\<rparr>)"
| "layer_fixed (Conv L) = Conv (L\<lparr>weight := [], bias := []\<rparr>)"
| "layer_fixed ReLU = ReLU"

fun layer_mask :: "layer \<Rightarrow> tensor4 option" where
  "layer_mask (Masked L) = Some (mask L)"
| "layer_mask (Conv L) = None"
| "layer_mask ReLU = None"

definition masks :: "PixelCNN \<Rightarrow> tensor4 option list" where
  "masks net = map layer_mask (layers net)"

section \<open>The notebook session\<close>

text \<open>
  The code is a notebook: its cells run one at a time against the global names of the
  session. A namespace maps a name to the value bound to it; reading an unbound name
  raises a NameError that carries the name.
\<close>

datatype pyval = Model PixelCNN | Loader "tensor4 list" | Function | Other

type_synonym namespace = "string \<Rightarrow> pyval option"

definition need ::
  "namespace \<Rightarrow> string \<Rightarrow> (pyval \<Rightarrow> namespace \<times> (fault + 'a)) \<Rightarrow> namespace \<times> (fault + 'a)" where
  "need g name k = (case g name of None \<Rightarrow> (g, Inl (NameError name)) | Some v \<Rightarrow> k v)"

text \<open>The cells of the notebook, and the global names each of them binds.\<close>

datatype cell = Imports | Classes | Data | Split | Training | Inference | Save

fun cell_names :: "cell \<Rightarrow> string list" where
  "cell_names Imports = [''torch'', ''nn'', ''optim'', ''transforms'', ''datasets'', ''F'',
     ''DataLoader'', ''random_split'', ''tqdm'', ''plt'', ''np'']"
| "cell_names Classes = [''MaskedConv2d'', ''PixelCNN'']"
| "cell_names Data = [''device'', ''transform'', ''dataset'', ''train_size'', ''test_size'',
     ''train_dataset'', ''test_dataset'', ''train_loader'', ''test_loader'']"
| "cell_names Split = [''split_top_bottom'', ''sample_image'', ''_'', ''top_half'',
     ''bottom_half'', ''fig'', ''ax'']"
| "cell_names Training = [''model'', ''optimizer'', ''criterion'', ''epochs'', ''epoch'',
     ''loop'', ''images'', ''_'', ''top_half'', ''bottom_half'', ''outputs'', ''loss'']"
| "cell_names Inference = [''complete_images'']"
| "cell_names Save = []"

text \<open>
  A session in which the training cell has not run: whichever of the other cells have
  run, in whole or in part and in any order, only names of those cells are bound.
\<close>

definition session_without_training :: "namespace \<Rightarrow> bool" where
  "session_without_training g \<longleftrightarrow>
     dom g \<subseteq> set (concat (map cell_names [Imports, Classes, Data, Split, Inference, Save]))"

text \<open>
  The inference cell: the \<open>def\<close> binds \<open>complete_images\<close>, then the call
  \<open>complete_images(model, test_loader)\<close>, with 5 samples, reads the function,
  \<open>model\<close> and \<open>test_loader\<close> in this order. The body reads \<open>torch\<close>, then for
  the first batch \<open>device\<close> and \<open>split_top_bottom\<close>, runs the network (which masks
  the weights of the model object in place), reads \<open>plt\<close> and displays. A name bound
  to a value of another kind than the notebook assigns to it gives a TypeError.
\<close>

definition inference_cell :: "namespace \<Rightarrow> namespace \<times> (fault + figure option)" where
  "inference_cell g =
     (let g1 = g(''complete_images'' \<mapsto> Function) in
      need g1 ''complete_images'' (\<lambda>_.
      need g1 ''model'' (\<lambda>m.
      need g1 ''test_loader'' (\<lambda>tl.
        case (m, tl) of
          (Model net, Loader batches) \<Rightarrow>
            need g1 ''torch'' (\<lambda>_.
              case batches of
                [] \<Rightarrow> (g1, Inr None)
              | images # _ \<Rightarrow>
                  need g1 ''device'' (\<lambda>_.
                  need g1 ''split_top_bottom'' (\<lambda>_.
                    case complete_batch net images of
                      (net', Inl e) \<Rightarrow> (g1(''model'' \<mapsto> Model net'), Inl e)
                    | (net', Inr (top_half, completed_images)) \<Rightarrow>
                        need (g1(''model'' \<mapsto> Model net')) ''plt'' (\<lambda>_.
                          (g1(''model'' \<mapsto> Model net'),
                           case show_samples 5 images top_half completed_images of
                             Inl e \<Rightarrow> Inl e
                           | Inr fig \<Rightarrow> Inr (Some fig))))))
        | _ \<Rightarrow> (g1, Inl TypeError)))))"

text \<open>
  The save cell, \<open>torch.save(model.state_dict(), "pixelcnn_model.pth")\<close>: \<open>torch\<close> is
  read first, then \<open>model\<close>; the checkpoint holds the weight, bias and mask of every
  layer that has them.
\<close>

datatype entry = Weight tensor4 | Bias "real list" | Buffer tensor4

fun layer_state :: "layer \<Rightarrow> entry list" where
  "layer_state (Masked L) = [Weight (weight L), Bias (bias L), Buffer (mask L)]"
| "layer_state (Conv L) = [Weight (weight L), Bias (bias L)]"
| "layer_state ReLU = []"

definition state_dict :: "PixelCNN \<Rightarrow> entry list" where
  "state_dict net = concat (map layer_state (layers net))"

definition save_cell :: "namespace \<Rightarrow> namespace \<times> (fault + entry list)" where
  "save_cell g =
     need g ''torch'' (\<lambda>_.
     need g ''model'' (\<lambda>m.
       case m of
         Model net \<Rightarrow> (g, Inr (state_dict net))
       | _ \<Rightarrow> (g, Inl TypeError)))"

section \<open>Raster order\<close>

text \<open>
  Position \<open>(r', c')\<close> comes before \<open>(r, c)\<close> in raster order when it is on an earlier
  row, or on the same row in an earlier column. Two images agree before (up to) a
  position when they have equal entries at every position before (at or before) it.
\<close>

definition raster_before :: "nat \<Rightarrow> nat \<Rightarrow> nat \<Rightarrow> nat \<Rightarrow> bool" where
  "raster_before r' c' r c \<longleftrightarrow> r' < r \<or> (r' = r \<and> c' < c)"

definition agree_before :: "nat \<Rightarrow> nat \<Rightarrow> tensor3 \<Rightarrow> tensor3 \<Rightarrow> bool" where
  "agree_before r c x x' \<longleftrightarrow>
     (\<forall>ci\<in>{0..<length x}. \<forall>r'\<in>{0..<length (x ! ci)}. \<forall>c'\<in>{0..<length (x ! ci ! r')}.
        raster_before r' c' r c \<longrightarrow> x ! ci ! r' ! c' = x' ! ci ! r' ! c')"

definition agree_upto :: "nat \<Rightarrow> nat \<Rightarrow> tensor3 \<Rightarrow> tensor3 \<Rightarrow> bool" where
  "agree_upto r c x x' \<longleftrightarrow>
     (\<forall>ci\<in>{0..<length x}. \<forall>r'\<in>{0..<length (x ! ci)}. \<forall>c'\<in>{0..<length (x ! ci ! r')}.
        raster_before r' c' r c \<or> (r' = r \<and> c' = c) \<longrightarrow> x ! ci ! r' ! c' = x' ! ci ! r' ! c')"

text \<open>
  Two batches of the same size whose \<open>n\<close>-th images agree up to position \<open>(r, c)\<close>.
\<close>

definition same_upto ::
  "nat \<Rightarrow> nat \<Rightarrow> nat \<Rightarrow> nat \<Rightarrow> nat \<Rightarrow> nat \<Rightarrow> nat \<Rightarrow> tensor4 \<Rightarrow> tensor4 \<Rightarrow> bool" where
  "same_upto n r c N C H W ys ys' \<longleftrightarrow>
     shape4 N C H W ys \<and> shape4 N C H W ys' \<and> agree_upto r c (ys ! n) (ys' ! n)"

section \<open>Shapes and entries of the constructed tensors\<close>

lemma agree_before_iff:
  "agree_before r c x x' \<longleftrightarrow>
     (\<forall>ci r' c'. ci < length x \<longrightarrow> r' < length (x ! ci) \<longrightarrow> c' < length (x ! ci ! r') \<longrightarrow>
        raster_before r' c' r c \<longrightarrow> x ! ci ! r' ! c' = x' ! ci ! r' ! c')"
  by (auto simp: agree_before_def)

lemma agree_upto_iff:
  "agree_upto r c x x' \<longleftrightarrow>
     (\<forall>ci r' c'. ci < length x \<longrightarrow> r' < length (x ! ci) \<longrightarrow> c' < length (x ! ci ! r') \<longrightarrow>
        raster_before r' c' r c \<or> (r' = r \<and> c' = c) \<longrightarrow> x ! ci ! r' ! c' = x' ! ci ! r' ! c')"
  by (auto simp: agree_upto_def)

lemma nth_zero_from:
  "j < length v \<Longrightarrow> zero_from j0 v ! j = (if j < j0 then v ! j else 0)"
  by (auto simp: zero_from_def nth_append)

lemma length_zero_from [simp]: "length (zero_from j0 v) = length v"
  by (simp add: zero_from_def)

lemma length_zero_rows_from [simp]: "length (zero_rows_from i0 t) = length t"
  by (simp add: zero_rows_from_def)

lemma length_zero_rows_upto [simp]: "length (zero_rows_upto i0 t) = length t"
  by (simp add: zero_rows_upto_def)

lemma nth_zero_rows_from:
  "i < length t \<Longrightarrow>
   zero_rows_from i0 t ! i = (if i < i0 then t ! i else map (\<lambda>_. 0) (t ! i))"
  by (auto simp: zero_rows_from_def nth_append)

lemma nth_zero_rows_upto:
  "i < length t \<Longrightarrow>
   zero_rows_upto i0 t ! i = (if i < i0 then map (\<lambda>_. 0) (t ! i) else t ! i)"
  by (auto simp: zero_rows_upto_def nth_append)

lemma length_zero_row_tail [simp]: "length (zero_row_tail i j0 k) = length k"
  by (simp add: zero_row_tail_def)

lemma nth_zero_row_tail:
  "i' < length k \<Longrightarrow>
   zero_row_tail i j0 k ! i' = (if i' = i then zero_from j0 (k ! i') else k ! i')"
  by (simp add: zero_row_tail_def nth_list_update)

lemma weight_Conv2d_init_nth:
  assumes "oc < cout" "ci < cin" "i < H" "j < W"
  shows "weight (Conv2d_init cin cout (H, W) pad winit binit) ! oc ! ci ! i ! j = winit oc ci i j"
  using assms by (simp add: Conv2d_init_def)

lemma kernel_mask_nth:
  assumes "i < length k" "j < length (k ! i)"
  shows "zero_rows_from (Suc i0) (zero_row_tail i0 j0 (map (map (\<lambda>_. 1)) k)) ! i ! j =
           (if i0 < i \<or> (i = i0 \<and> j0 \<le> j) then 0 else 1)"
  using assms by (auto simp: nth_zero_rows_from nth_zero_row_tail nth_zero_from)

lemma build_mask_nth:
  assumes "oc < length w" "ci < length (w ! oc)" "i < length (w ! oc ! ci)"
    and "j < length (w ! oc ! ci ! i)"
  shows "build_mask w H W mt ! oc ! ci ! i ! j =
           (if H div 2 < i \<or> (i = H div 2 \<and> W div 2 + (if mt = ''B'' then 1 else 0) \<le> j)
            then 0 else 1)"
proof -
  define j0 where "j0 = W div 2 + (if mt = ''B'' then 1 else (0::nat))"
  have "build_mask w H W mt ! oc ! ci =
          zero_rows_from (Suc (H div 2))
            (zero_row_tail (H div 2) j0 (map (map (\<lambda>_. 1)) (w ! oc ! ci)))"
    using assms(1,2) by (simp add: build_mask_def fill4_def j0_def)
  then show ?thesis
    using kernel_mask_nth [OF assms(3,4), of "H div 2" j0] by (simp only: j0_def)
qed

lemma MaskedConv2d_init_Inr:
  assumes "MaskedConv2d_init cin cout (H, W) pad mt winit binit = Inr L"
  shows "mt = ''A'' \<or> mt = ''B''" and "0 < H"
    and "mask L = build_mask (weight (Conv2d_init cin cout (H, W) pad winit binit)) H W mt"
    and "weight L = weight (Conv2d_init cin cout (H, W) pad winit binit)"
    and "bias L = bias (Conv2d_init cin cout (H, W) pad winit binit)"
    and "in_channels L = cin" and "out_channels L = cout"
    and "kernel_size L = (H, W)" and "padding L = pad"
  using assms
  by (auto simp: MaskedConv2d_init_def Let_def Conv2d_init_def Conv2d.defs MaskedConv2d.defs
           split: if_splits)

section \<open>Convolution and agreement of inputs\<close>

lemma shape3_nth: "shape3 C H W t \<Longrightarrow> ci < C \<Longrightarrow> shape2 H W (t ! ci)"
  by (simp add: shape3_def list_all_length)

lemma shape4_nth: "shape4 N C H W t \<Longrightarrow> n < N \<Longrightarrow> shape3 C H W (t ! n)"
  by (simp add: shape4_def list_all_length)

lemma shape3_lengths:
  assumes "shape3 C H W t"
  shows "length t = C" and "ci < C \<Longrightarrow> length (t ! ci) = H"
    and "ci < C \<Longrightarrow> r < H \<Longrightarrow> length (t ! ci ! r) = W"
  using assms by (simp_all add: shape3_def shape2_def list_all_length)

lemma img_size:
  assumes "shape3 C H W x" "0 < C"
  shows "img_height x = H" and "0 < H \<Longrightarrow> img_width x = W"
proof -
  obtain ch rest where x: "x = ch # rest" using assms by (cases x) (auto simp: shape3_def)
  then have ch: "shape2 H W ch" using assms by (simp add: shape3_def)
  then show "img_height x = H" by (simp add: img_height_def x shape2_def)
  show "img_width x = W" if pos: "0 < H"
  proof -
    obtain row rows where "ch = row # rows" using ch pos by (cases ch) (auto simp: shape2_def)
    then show ?thesis using ch by (simp add: img_width_def x shape2_def)
  qed
qed

lemma pad_get_shape:
  assumes "shape2 H W ch"
  shows "pad_get ch (ph, pw) a b =
           (if ph \<le> a \<and> a - ph < H \<and> pw \<le> b \<and> b - pw < W then ch ! (a - ph) ! (b - pw) else 0)"
  using assms by (auto simp: pad_get_def shape2_def list_all_length)

lemma conv_at_agree:
  assumes sx: "shape3 cin H W x" and sx': "shape3 cin H W x'"
    and supp: "\<And>ci i j. ci < cin \<Longrightarrow> i < KH \<Longrightarrow> j < KW \<Longrightarrow> w ! oc ! ci ! i ! j \<noteq> 0 \<Longrightarrow>
        ph \<le> r + i \<Longrightarrow> r + i - ph < H \<Longrightarrow> pw \<le> c + j \<Longrightarrow> c + j - pw < W \<Longrightarrow>
        x ! ci ! (r + i - ph) ! (c + j - pw) = x' ! ci ! (r + i - ph) ! (c + j - pw)"
  shows "conv_at w b cin (KH, KW) (ph, pw) x oc r c = conv_at w b cin (KH, KW) (ph, pw) x' oc r c"
proof -
  have eq_term: "w ! oc ! ci ! i ! j * pad_get (x ! ci) (ph, pw) (r + i) (c + j) =
              w ! oc ! ci ! i ! j * pad_get (x' ! ci) (ph, pw) (r + i) (c + j)"
    if "ci < cin" "i < KH" "j < KW" for ci i j
  proof (cases "w ! oc ! ci ! i ! j = 0")
    case True
    then show ?thesis by simp
  next
    case False
    have "pad_get (x ! ci) (ph, pw) (r + i) (c + j) = pad_get (x' ! ci) (ph, pw) (r + i) (c + j)"
      using supp [OF that False]
      by (simp add: pad_get_shape [OF shape3_nth [OF sx that(1)]]
                    pad_get_shape [OF shape3_nth [OF sx' that(1)]])
    then show ?thesis by simp
  qed
  show ?thesis
    unfolding conv_at_def
    by (intro arg_cong [where f = "(+) (b ! oc)"] arg_cong [where f = sum_list] map_cong refl)
       (simp add: eq_term)
qed


lemma map2_nth: "i < length xs \<Longrightarrow> i < length ys \<Longrightarrow> map2 f xs ys ! i = f (xs ! i) (ys ! i)"
  by simp

lemma mul4_nth:
  assumes a: "shape4 A B C D a" and b: "shape4 A B C D b"
    and i: "oc < A" "ci < B" "i < C" "j < D"
  shows "mul4 a b ! oc ! ci ! i ! j = a ! oc ! ci ! i ! j * b ! oc ! ci ! i ! j"
proof -
  have la: "length a = A" "length (a ! oc) = B" "length (a ! oc ! ci) = C"
      "length (a ! oc ! ci ! i) = D"
    using a i by (simp_all add: shape4_def shape3_def shape2_def list_all_length)
  have lb: "length b = A" "length (b ! oc) = B" "length (b ! oc ! ci) = C"
      "length (b ! oc ! ci ! i) = D"
    using b i by (simp_all add: shape4_def shape3_def shape2_def list_all_length)
  show ?thesis
    unfolding mul4_def using la lb i by (simp add: map2_nth)
qed

lemma shape4_Conv2d_init:
  "shape4 cout cin KH KW (weight (Conv2d_init cin cout (KH, KW) pad winit binit))"
  by (simp add: Conv2d_init_def shape4_def shape3_def shape2_def list_all_length)

lemma shape2_fill: "shape2 H W k \<Longrightarrow> shape2 H W (map (map (\<lambda>_. v)) k)"
  by (simp add: shape2_def list_all_length)

lemma shape2_zero_row_tail: "shape2 H W k \<Longrightarrow> shape2 H W (zero_row_tail i j0 k)"
  by (simp add: shape2_def list_all_length nth_zero_row_tail)

lemma shape2_zero_rows_from: "shape2 H W k \<Longrightarrow> shape2 H W (zero_rows_from i0 k)"
  by (simp add: shape2_def list_all_length nth_zero_rows_from)

lemma shape4_build_mask:
  assumes "shape4 A B C D w"
  shows "shape4 A B C D (build_mask w H W mt)"
  using assms
  by (simp add: build_mask_def fill4_def shape4_def shape3_def list_all_length
        shape2_fill shape2_zero_row_tail shape2_zero_rows_from)

lemma masked_weight_nth:
  assumes L: "MaskedConv2d_init cin cout (KH, KW) pad mt winit binit = Inr L"
    and i: "oc < cout" "ci < cin" "i < KH" "j < KW"
  shows "mul4 (weight L) (mask L) ! oc ! ci ! i ! j =
           (if KH div 2 < i \<or> (i = KH div 2 \<and> KW div 2 + (if mt = ''B'' then 1 else 0) \<le> j)
            then 0 else winit oc ci i j)"
proof -
  note init = MaskedConv2d_init_Inr [OF L]
  let ?w = "weight (Conv2d_init cin cout (KH, KW) pad winit binit)"
  have sw: "shape4 cout cin KH KW ?w" by (rule shape4_Conv2d_init)
  have m: "build_mask ?w KH KW mt ! oc ! ci ! i ! j =
      (if KH div 2 < i \<or> (i = KH div 2 \<and> KW div 2 + (if mt = ''B'' then 1 else 0) \<le> j)
       then 0 else 1)"
    by (rule build_mask_nth) (use i in \<open>simp_all add: Conv2d_init_def\<close>)
  show ?thesis
    unfolding init(3,4) mul4_nth [OF sw shape4_build_mask [OF sw] i] m
    using i by (simp add: weight_Conv2d_init_nth)
qed

lemma agree_beforeD:
  assumes "agree_before r c x x'" "shape3 C H W x"
    and "ci < C" "r' < H" "c' < W" "raster_before r' c' r c"
  shows "x ! ci ! r' ! c' = x' ! ci ! r' ! c'"
  using assms shape3_lengths [OF assms(2)] by (simp add: agree_before_iff)

lemma agree_uptoD:
  assumes "agree_upto r c x x'" "shape3 C H W x"
    and "ci < C" "r' < H" "c' < W" "raster_before r' c' r c \<or> (r' = r \<and> c' = c)"
  shows "x ! ci ! r' ! c' = x' ! ci ! r' ! c'"
  using assms shape3_lengths [OF assms(2)] by (auto simp: agree_upto_iff)

lemma agree_uptoI:
  assumes "shape3 C H W x"
    and "\<And>ci r' c'. ci < C \<Longrightarrow> r' < H \<Longrightarrow> c' < W \<Longrightarrow>
           raster_before r' c' r c \<or> (r' = r \<and> c' = c) \<Longrightarrow> x ! ci ! r' ! c' = x' ! ci ! r' ! c'"
  shows "agree_upto r c x x'"
  using assms(2) shape3_lengths [OF assms(1)] by (simp add: agree_upto_iff)

text \<open>A masked convolution reads only positions before (type A) or up to (type B) the
  output position, when its padding is half the kernel size.\<close>

lemma masked_conv_at_agree:
  assumes L: "MaskedConv2d_init cin cout (KH, KW) (KH div 2, KW div 2) mt winit binit = Inr L"
    and sx: "shape3 cin H W x" and sx': "shape3 cin H W x'"
    and oc: "oc < cout"
    and agree: "if mt = ''A'' then agree_before r c x x' else agree_upto r c x x'"
  shows "conv_at (mul4 (weight L) (mask L)) b cin (KH, KW) (KH div 2, KW div 2) x oc r c =
         conv_at (mul4 (weight L) (mask L)) b cin (KH, KW) (KH div 2, KW div 2) x' oc r c"
proof (rule conv_at_agree [OF sx sx'])
  fix ci i j
  assume i: "ci < cin" "i < KH" "j < KW"
    and nz: "mul4 (weight L) (mask L) ! oc ! ci ! i ! j \<noteq> 0"
    and rng: "KH div 2 \<le> r + i" "r + i - KH div 2 < H" "KW div 2 \<le> c + j" "c + j - KW div 2 < W"
  from nz have unmasked:
    "\<not> (KH div 2 < i \<or> (i = KH div 2 \<and> KW div 2 + (if mt = ''B'' then 1 else 0) \<le> j))"
    unfolding masked_weight_nth [OF L oc i] by (auto split: if_splits)
  note init = MaskedConv2d_init_Inr [OF L]
  show "x ! ci ! (r + i - KH div 2) ! (c + j - KW div 2) =
        x' ! ci ! (r + i - KH div 2) ! (c + j - KW div 2)"
  proof (cases "mt = ''A''")
    case True
    then have "raster_before (r + i - KH div 2) (c + j - KW div 2) r c"
      using unmasked rng by (auto simp: raster_before_def; arith)
    with agree True show ?thesis
      using agree_beforeD [OF _ sx i(1) rng(2,4)] by simp
  next
    case False
    then have B: "mt = ''B''" using init(1) by simp
    then have "raster_before (r + i - KH div 2) (c + j - KW div 2) r c \<or>
        (r + i - KH div 2 = r \<and> c + j - KW div 2 = c)"
      using unmasked rng by (auto simp: raster_before_def; arith)
    with agree False show ?thesis
      using agree_uptoD [OF _ sx i(1) rng(2,4)] by simp
  qed
qed


lemma raster_before_trans:
  assumes "raster_before a b r' c'" "raster_before r' c' r c \<or> (r' = r \<and> c' = c)"
  shows "raster_before a b r c"
  using assms by (auto simp: raster_before_def)

lemma agree_before_mono:
  assumes "agree_before r c x x'" "raster_before r' c' r c \<or> (r' = r \<and> c' = c)"
  shows "agree_before r' c' x x'"
  unfolding agree_before_iff
proof (intro allI impI)
  fix ci a b
  assume "ci < length x" "a < length (x ! ci)" "b < length (x ! ci ! a)" "raster_before a b r' c'"
  with assms(1) raster_before_trans [OF _ assms(2)] show "x ! ci ! a ! b = x' ! ci ! a ! b"
    by (simp add: agree_before_iff)
qed

lemma agree_upto_mono:
  assumes "agree_upto r c x x'" "raster_before r' c' r c \<or> (r' = r \<and> c' = c)"
  shows "agree_upto r' c' x x'"
  unfolding agree_upto_iff
proof (intro allI impI)
  fix ci a b
  assume b: "ci < length x" "a < length (x ! ci)" "b < length (x ! ci ! a)"
    and "raster_before a b r' c' \<or> (a = r' \<and> b = c')"
  then have "raster_before a b r c \<or> (a = r \<and> b = c)"
    using raster_before_trans [OF _ assms(2)] assms(2) by blast
  with assms(1) b show "x ! ci ! a ! b = x' ! ci ! a ! b"
    by (auto simp: agree_upto_iff)
qed

lemma conv2d_image_shape:
  "shape3 cout (out_size (img_height x) ph KH) (out_size (img_width x) pw KW)
     (conv2d_image w b cin cout (KH, KW) (ph, pw) x)"
  by (simp add: conv2d_image_def shape3_def shape2_def list_all_length)

lemma conv2d_image_nth:
  assumes "oc < cout" "r < out_size (img_height x) ph KH" "c < out_size (img_width x) pw KW"
  shows "conv2d_image w b cin cout (KH, KW) (ph, pw) x ! oc ! r ! c =
           conv_at w b cin (KH, KW) (ph, pw) x oc r c"
  using assms by (simp add: conv2d_image_def)

lemma Conv2d_forward_Inr:
  assumes xs: "shape4 N cin H W xs"
    and L: "in_channels L = cin" "kernel_size L = (KH, KW)" "padding L = (ph, pw)"
    and pos: "0 < cin" "0 < H" "0 < W"
    and fit: "KH \<le> H + 2 * ph" "KW \<le> W + 2 * pw"
  shows "Conv2d_forward L xs =
           Inr (map (conv2d_image (weight L) (bias L) cin (out_channels L) (KH, KW) (ph, pw)) xs)"
proof -
  have each: "length x = cin \<and> img_height x = H \<and> img_width x = W" if "x \<in> set xs" for x
  proof -
    from that xs have "shape3 cin H W x" by (auto simp: shape4_def list_all_iff)
    then show ?thesis using img_size [of cin H W x] pos by (simp add: shape3_def)
  qed
  then show ?thesis
    unfolding Conv2d_forward_def using L fit by (simp add: list_all_iff)
qed

lemma shape4_conv_batch:
  assumes xs: "shape4 N cin H W xs" and pos: "0 < cin" "0 < H"
  shows "shape4 N cout (out_size H ph KH) (out_size W pw KW)
           (map (conv2d_image w b cin cout (KH, KW) (ph, pw)) xs)"
proof -
  have "shape3 cout (out_size H ph KH) (out_size W pw KW)
          (conv2d_image w b cin cout (KH, KW) (ph, pw) x)" if "x \<in> set xs" for x
  proof -
    from that xs have "shape3 cin H W x" by (auto simp: shape4_def list_all_iff)
    then have "img_height x = H" "img_width x = W" using img_size [of cin H W x] pos by simp_all
    then show ?thesis using conv2d_image_shape [of cout x ph KH pw KW w b cin] by simp
  qed
  then show ?thesis using xs by (simp add: shape4_def list_all_iff)
qed

lemma fit_half: "0 < n \<Longrightarrow> k \<le> n + 2 * (k div 2)" for n k :: nat
  by arith

lemma masked_layer_step:
  assumes L: "MaskedConv2d_init cin cout (KH, KW) (KH div 2, KW div 2) mt winit binit = Inr L"
    and pos: "0 < cin" "0 < H" "0 < W" and n: "n < N"
    and xs: "shape4 N cin H W xs" and xs': "shape4 N cin H W xs'"
    and agree: "if mt = ''A'' then agree_before r c (xs ! n) (xs' ! n)
                else agree_upto r c (xs ! n) (xs' ! n)"
  shows "\<exists>L' ys ys'. MaskedConv2d_forward L xs = (L', Inr ys) \<and>
           MaskedConv2d_forward L xs' = (L', Inr ys') \<and>
           same_upto n r c N cout (out_size H (KH div 2) KH) (out_size W (KW div 2) KW) ys ys'"
proof -
  note init = MaskedConv2d_init_Inr [OF L]
  define L' where "L' = L\<lparr>weight := mul4 (weight L) (mask L)\<rparr>"
  define f where "f = conv2d_image (mul4 (weight L) (mask L)) (bias L) cin cout (KH, KW)
                        (KH div 2, KW div 2)"
  have L'f: "in_channels L' = cin" "kernel_size L' = (KH, KW)" "padding L' = (KH div 2, KW div 2)"
    using init by (simp_all add: L'_def)
  have fwd: "Conv2d_forward L' zs = Inr (map f zs)" if "shape4 N cin H W zs" for zs
    using Conv2d_forward_Inr [OF that L'f pos fit_half [OF pos(2)] fit_half [OF pos(3)]] init(7)
    by (simp add: f_def L'_def)
  let ?H = "out_size H (KH div 2) KH" and ?W = "out_size W (KW div 2) KW"
  have sh: "shape4 N cout ?H ?W (map f zs)" if "shape4 N cin H W zs" for zs
    unfolding f_def by (rule shape4_conv_batch [OF that pos(1,2)])
  have sx: "shape3 cin H W (xs ! n)" and sx': "shape3 cin H W (xs' ! n)"
    using shape4_nth [OF xs n] shape4_nth [OF xs' n] by simp_all
  have hw: "img_height (xs ! n) = H" "img_width (xs ! n) = W"
      "img_height (xs' ! n) = H" "img_width (xs' ! n) = W"
    using img_size [OF sx pos(1)] img_size [OF sx' pos(1)] pos(2) by simp_all
  have ln: "n < length xs" "n < length xs'" using xs xs' n by (simp_all add: shape4_def)
  have "agree_upto r c (map f xs ! n) (map f xs' ! n)"
  proof (rule agree_uptoI [where C = cout and H = ?H and W = ?W])
    show "shape3 cout ?H ?W (map f xs ! n)"
      using shape4_nth [OF sh [OF xs] n] .
  next
    fix oc r' c'
    assume b: "oc < cout" "r' < ?H" "c' < ?W"
      and le: "raster_before r' c' r c \<or> (r' = r \<and> c' = c)"
    have ag: "if mt = ''A'' then agree_before r' c' (xs ! n) (xs' ! n)
              else agree_upto r' c' (xs ! n) (xs' ! n)"
    proof (cases "mt = ''A''")
      case True
      with agree have "agree_before r c (xs ! n) (xs' ! n)" by simp
      from agree_before_mono [OF this le] True show ?thesis by simp
    next
      case False
      with agree have "agree_upto r c (xs ! n) (xs' ! n)" by simp
      from agree_upto_mono [OF this le] False show ?thesis by simp
    qed
    have e: "map f zs ! n ! oc ! r' ! c' =
          conv_at (mul4 (weight L) (mask L)) (bias L) cin (KH, KW) (KH div 2, KW div 2)
            (zs ! n) oc r' c'"
      if "n < length zs" "img_height (zs ! n) = H" "img_width (zs ! n) = W" for zs
      unfolding f_def nth_map [OF that(1)]
      by (rule conv2d_image_nth) (use b that(2,3) in simp_all)
    show "map f xs ! n ! oc ! r' ! c' = map f xs' ! n ! oc ! r' ! c'"
      unfolding e [OF ln(1) hw(1,2)] e [OF ln(2) hw(3,4)]
      by (rule masked_conv_at_agree [OF L sx sx' b(1) ag])
  qed
  then have 3: "same_upto n r c N cout ?H ?W (map f xs) (map f xs')"
    using sh [OF xs] sh [OF xs'] by (simp add: same_upto_def)
  have "MaskedConv2d_forward L zs = (L', Inr (map f zs))" if "shape4 N cin H W zs" for zs
    using fwd [OF that] by (simp add: MaskedConv2d_forward_def Let_def L'_def)
  from this [OF xs] this [OF xs'] 3 show ?thesis by (intro exI conjI)
qed

lemma shape4_map4:
  assumes "shape4 N C H W xs"
  shows "shape4 N C H W (map (map (map (map f))) xs)"
  using assms by (simp add: shape4_def shape3_def shape2_def list_all_length)

lemma map4_nth:
  assumes "shape4 N C H W xs" "n < N" "ci < C" "r < H" "c < W"
  shows "map (map (map (map f))) xs ! n ! ci ! r ! c = f (xs ! n ! ci ! r ! c)"
  using assms by (simp add: shape4_def shape3_def shape2_def list_all_length)

lemma same_upto_map4:
  assumes s: "same_upto n r c N C H W ys ys'" and n: "n < N"
  shows "same_upto n r c N C H W (map (map (map (map f))) ys) (map (map (map (map f))) ys')"
proof -
  from s have sh: "shape4 N C H W ys" "shape4 N C H W ys'"
    and ag: "agree_upto r c (ys ! n) (ys' ! n)"
    by (simp_all add: same_upto_def)
  have "agree_upto r c (map (map (map (map f))) ys ! n) (map (map (map (map f))) ys' ! n)"
  proof (rule agree_uptoI [where C = C and H = H and W = W])
    show "shape3 C H W (map (map (map (map f))) ys ! n)"
      by (rule shape4_nth [OF shape4_map4 [OF sh(1)] n])
  next
    fix ci r' c'
    assume b: "ci < C" "r' < H" "c' < W"
      and le: "raster_before r' c' r c \<or> (r' = r \<and> c' = c)"
    show "map (map (map (map f))) ys ! n ! ci ! r' ! c' =
          map (map (map (map f))) ys' ! n ! ci ! r' ! c'"
      unfolding map4_nth [OF sh(1) n b] map4_nth [OF sh(2) n b]
      using agree_uptoD [OF ag shape4_nth [OF sh(1) n] b le] by simp
  qed
  then show ?thesis
    using shape4_map4 [OF sh(1), of f] shape4_map4 [OF sh(2), of f] by (simp add: same_upto_def)
qed

text \<open>The final layer: a convolution with a 1 x 1 kernel and no padding reads only the
  output position itself.\<close>

lemma pointwise_layer_step:
  assumes s: "same_upto n r c N cin H W xs xs'"
    and pos: "0 < cin" "0 < H" "0 < W" and n: "n < N"
  shows "\<exists>ys ys'. Conv2d_forward (Conv2d_init cin cout (1, 1) (0, 0) w b) xs = Inr ys \<and>
           Conv2d_forward (Conv2d_init cin cout (1, 1) (0, 0) w b) xs' = Inr ys' \<and>
           same_upto n r c N cout H W ys ys'"
proof -
  define L where "L = Conv2d_init cin cout (1, 1) (0, 0) w b"
  define f where "f = conv2d_image (weight L) (bias L) cin cout (1, 1) (0, 0)"
  from s have xs: "shape4 N cin H W xs" and xs': "shape4 N cin H W xs'"
    and ag: "agree_upto r c (xs ! n) (xs' ! n)"
    by (simp_all add: same_upto_def)
  have Lf: "in_channels L = cin" "kernel_size L = (1, 1)" "padding L = (0, 0)"
    and Lo: "out_channels L = cout"
    by (simp_all add: L_def Conv2d_init_def)
  have fwd: "Conv2d_forward L zs = Inr (map f zs)" if "shape4 N cin H W zs" for zs
    using Conv2d_forward_Inr [OF that Lf pos] pos Lo by (simp add: f_def)
  have os: "out_size H 0 1 = H" "out_size W 0 1 = W" by (simp_all add: out_size_def)
  have sh: "shape4 N cout H W (map f zs)" if "shape4 N cin H W zs" for zs
    using shape4_conv_batch [OF that pos(1,2), of cout 0 1 0 1 "weight L" "bias L"]
    by (simp add: f_def out_size_def)
  have sx: "shape3 cin H W (xs ! n)" and sx': "shape3 cin H W (xs' ! n)"
    using shape4_nth [OF xs n] shape4_nth [OF xs' n] by simp_all
  have hw: "img_height (xs ! n) = H" "img_width (xs ! n) = W"
      "img_height (xs' ! n) = H" "img_width (xs' ! n) = W"
    using img_size [OF sx pos(1)] img_size [OF sx' pos(1)] pos(2) by simp_all
  have ln: "n < length xs" "n < length xs'" using xs xs' n by (simp_all add: shape4_def)
  have "agree_upto r c (map f xs ! n) (map f xs' ! n)"
  proof (rule agree_uptoI [where C = cout and H = H and W = W])
    show "shape3 cout H W (map f xs ! n)"
      using shape4_nth [OF sh [OF xs] n] .
  next
    fix oc r' c'
    assume b: "oc < cout" "r' < H" "c' < W"
      and le: "raster_before r' c' r c \<or> (r' = r \<and> c' = c)"
    have e: "map f zs ! n ! oc ! r' ! c' =
          conv_at (weight L) (bias L) cin (1, 1) (0, 0) (zs ! n) oc r' c'"
      if "n < length zs" "img_height (zs ! n) = H" "img_width (zs ! n) = W" for zs
      unfolding f_def nth_map [OF that(1)]
      by (rule conv2d_image_nth) (use b that(2,3) in \<open>simp_all add: out_size_def\<close>)
    show "map f xs ! n ! oc ! r' ! c' = map f xs' ! n ! oc ! r' ! c'"
      unfolding e [OF ln(1) hw(1,2)] e [OF ln(2) hw(3,4)]
    proof (rule conv_at_agree [OF sx sx'])
      fix ci i j
      assume "ci < cin" "i < 1" "j < 1" "r' + i - 0 < H" "c' + j - 0 < W"
      then show "xs ! n ! ci ! (r' + i - 0) ! (c' + j - 0) =
                 xs' ! n ! ci ! (r' + i - 0) ! (c' + j - 0)"
        using agree_uptoD [OF ag sx _ b(2,3) le, of ci] by simp
    qed
  qed
  then have "same_upto n r c N cout H W (map f xs) (map f xs')"
    using sh [OF xs] sh [OF xs'] by (simp add: same_upto_def)
  with fwd [OF xs] fwd [OF xs'] show ?thesis unfolding L_def by (intro exI conjI)
qed

lemma run_layers_append:
  assumes "run_layers as xs = (as', Inr ys)"
  shows "run_layers (as @ bs) xs = (case run_layers bs ys of (bs', res) \<Rightarrow> (as' @ bs', res))"
  using assms
proof (induction as arbitrary: xs as')
  case Nil
  then show ?case by (simp split: prod.splits)
next
  case (Cons a as)
  then show ?case by (auto split: prod.splits sum.splits)
qed

lemma out_size_half:
  "n \<le> out_size n (k div 2) k" "odd k \<Longrightarrow> out_size n (k div 2) k = n"
  unfolding out_size_def by presburger+

lemma hidden_layers_step:
  assumes "hidden_layers hc (k, k) (k div 2, k div 2) winit binit idxs = Inr ls"
    and "0 < hc" "0 < H" "0 < W" "n < N"
    and "same_upto n r c N hc H W ys ys'"
  shows "\<exists>ls' zs zs' H' W'. run_layers ls ys = (ls', Inr zs) \<and> run_layers ls ys' = (ls', Inr zs') \<and>
           H \<le> H' \<and> W \<le> W' \<and> (odd k \<longrightarrow> H' = H \<and> W' = W) \<and>
           same_upto n r c N hc H' W' zs zs'"
  using assms
proof (induction idxs arbitrary: ls ys ys' H W)
  case Nil
  then have "ls = []" by simp
  with Nil.prems(6) show ?case by auto
next
  case (Cons l idxs)
  from Cons.prems(1) obtain L rest
    where L: "MaskedConv2d_init hc hc (k, k) (k div 2, k div 2) ''B'' (winit l) (binit l) = Inr L"
      and rest: "hidden_layers hc (k, k) (k div 2, k div 2) winit binit idxs = Inr rest"
      and ls: "ls = Masked L # ReLU # rest"
    by (auto split: sum.splits)
  let ?H = "out_size H (k div 2) k" and ?W = "out_size W (k div 2) k"
  from Cons.prems(6) have sh: "shape4 N hc H W ys" "shape4 N hc H W ys'"
    and ag: "if ''B'' = ''A'' then agree_before r c (ys ! n) (ys' ! n)
             else agree_upto r c (ys ! n) (ys' ! n)"
    by (simp_all add: same_upto_def)
  from masked_layer_step [OF L Cons.prems(2,3,4,5) sh ag]
  obtain L' us us' where f: "MaskedConv2d_forward L ys = (L', Inr us)"
      "MaskedConv2d_forward L ys' = (L', Inr us')"
    and s: "same_upto n r c N hc ?H ?W us us'"
    by blast
  have s': "same_upto n r c N hc ?H ?W (relu us) (relu us')"
    unfolding relu_def by (rule same_upto_map4 [OF s Cons.prems(5)])
  have posH: "0 < ?H" "0 < ?W"
    using out_size_half(1) [of H k] out_size_half(1) [of W k] Cons.prems(3,4) by simp_all
  from Cons.IH [OF rest Cons.prems(2) posH Cons.prems(5) s']
  obtain ls' zs zs' H' W' where r: "run_layers rest (relu us) = (ls', Inr zs)"
      "run_layers rest (relu us') = (ls', Inr zs')"
    and b: "?H \<le> H'" "?W \<le> W'" "odd k \<longrightarrow> H' = ?H \<and> W' = ?W"
    and s'': "same_upto n r c N hc H' W' zs zs'"
    by blast
  have 1: "run_layers ls ys = (Masked L' # ReLU # ls', Inr zs)"
    and 2: "run_layers ls ys' = (Masked L' # ReLU # ls', Inr zs')"
    using f r by (simp_all add: ls)
  have 3: "H \<le> H'" "W \<le> W'"
    using b(1,2) out_size_half(1) [of H k] out_size_half(1) [of W k] by simp_all
  have 4: "odd k \<longrightarrow> H' = H \<and> W' = W"
    using b(3) out_size_half(2) [of k] by simp
  from 1 2 3 4 s'' show ?case by blast
qed

lemma PixelCNN_init_Inr:
  assumes "PixelCNN_init ic hc k nl winit binit = Inr net"
  obtains first hidden where
    "MaskedConv2d_init ic hc (k, k) (k div 2, k div 2) ''A'' (winit 0) (binit 0) = Inr first"
    "hidden_layers hc (k, k) (k div 2, k div 2) winit binit [1..<Suc (nat (nl - 2))] = Inr hidden"
    "layers net = Masked first # ReLU # hidden @
       [Conv (Conv2d_init hc ic (1, 1) (0, 0) (winit (Suc (nat (nl - 2))))
                (binit (Suc (nat (nl - 2)))))]"
  using assms unfolding PixelCNN_init_def Let_def by (auto split: sum.splits)

text \<open>The whole network: on two batches of the same size whose \<open>n\<close>-th images agree
  before a position, both runs succeed, leave the network in the same state, and their
  outputs agree up to that position.\<close>

lemma PixelCNN_forward_step:
  assumes init: "PixelCNN_init ic hc k nl winit binit = Inr net"
    and pos: "0 < ic" "0 < hc" "0 < H" "0 < W" and n: "n < N"
    and xs: "shape4 N ic H W xs" and xs': "shape4 N ic H W xs'"
    and agree: "agree_before r c (xs ! n) (xs' ! n)"
  shows "\<exists>net' zs zs' H' W'. PixelCNN_forward net xs = (net', Inr (map (map (map (map sigmoid))) zs)) \<and>
           PixelCNN_forward net xs' = (net', Inr (map (map (map (map sigmoid))) zs')) \<and>
           H \<le> H' \<and> W \<le> W' \<and> (odd k \<longrightarrow> H' = H \<and> W' = W) \<and>
           same_upto n r c N ic H' W' zs zs'"
proof -
  from init obtain first hidden
    where first: "MaskedConv2d_init ic hc (k, k) (k div 2, k div 2) ''A'' (winit 0) (binit 0) = Inr first"
      and hidden: "hidden_layers hc (k, k) (k div 2, k div 2) winit binit [1..<Suc (nat (nl - 2))] = Inr hidden"
      and ls: "layers net = Masked first # ReLU # hidden @
         [Conv (Conv2d_init hc ic (1, 1) (0, 0) (winit (Suc (nat (nl - 2))))
                  (binit (Suc (nat (nl - 2)))))]"
    by (rule PixelCNN_init_Inr)
  define last where "last = Conv2d_init hc ic (1, 1) (0, 0) (winit (Suc (nat (nl - 2))))
                  (binit (Suc (nat (nl - 2))))"
  have ls_last: "layers net = Masked first # ReLU # hidden @ [Conv last]"
    unfolding last_def by (rule ls)
  let ?H = "out_size H (k div 2) k" and ?W = "out_size W (k div 2) k"
  have ag: "if ''A'' = ''A'' then agree_before r c (xs ! n) (xs' ! n)
            else agree_upto r c (xs ! n) (xs' ! n)"
    using agree by simp
  from masked_layer_step [OF first pos(1,3,4) n xs xs' ag]
  obtain L' us us' where f: "MaskedConv2d_forward first xs = (L', Inr us)"
      "MaskedConv2d_forward first xs' = (L', Inr us')"
    and s: "same_upto n r c N hc ?H ?W us us'"
    by blast
  have s': "same_upto n r c N hc ?H ?W (relu us) (relu us')"
    unfolding relu_def by (rule same_upto_map4 [OF s n])
  have posH: "0 < ?H" "0 < ?W"
    using out_size_half(1) [of H k] out_size_half(1) [of W k] pos(3,4) by simp_all
  from hidden_layers_step [OF hidden pos(2) posH n s']
  obtain ls' vs vs' H' W' where r: "run_layers hidden (relu us) = (ls', Inr vs)"
      "run_layers hidden (relu us') = (ls', Inr vs')"
    and b: "?H \<le> H'" "?W \<le> W'" "odd k \<longrightarrow> H' = ?H \<and> W' = ?W"
    and s'': "same_upto n r c N hc H' W' vs vs'"
    by blast
  have posH': "0 < H'" "0 < W'" using posH b(1,2) by simp_all
  from pointwise_layer_step [OF s'' pos(2) posH' n, of ic "winit (Suc (nat (nl - 2)))"
      "binit (Suc (nat (nl - 2)))"]
  obtain zs zs' where c: "Conv2d_forward last vs = Inr zs" "Conv2d_forward last vs' = Inr zs'"
    and s3: "same_upto n r c N ic H' W' zs zs'"
    unfolding last_def by blast
  have h1: "run_layers (hidden @ [Conv last]) (relu us) = (ls' @ [Conv last], Inr zs)"
    using run_layers_append [OF r(1), of "[Conv last]"] c(1) by simp
  have h2: "run_layers (hidden @ [Conv last]) (relu us') = (ls' @ [Conv last], Inr zs')"
    using run_layers_append [OF r(2), of "[Conv last]"] c(2) by simp
  have 1: "run_layers (layers net) xs = (Masked L' # ReLU # ls' @ [Conv last], Inr zs)"
    using f(1) h1 by (simp add: ls_last)
  have 2: "run_layers (layers net) xs' = (Masked L' # ReLU # ls' @ [Conv last], Inr zs')"
    using f(2) h2 by (simp add: ls_last)
  have 3: "H \<le> H'" "W \<le> W'"
    using b(1,2) out_size_half(1) [of H k] out_size_half(1) [of W k] by simp_all
  have 4: "odd k \<longrightarrow> H' = H \<and> W' = W"
    using b(3) out_size_half(2) [of k] by simp
  have 5: "PixelCNN_forward net xs =
        (net\<lparr>layers := Masked L' # ReLU # ls' @ [Conv last]\<rparr>, Inr (map (map (map (map sigmoid))) zs))"
    by (simp add: PixelCNN_forward_def 1)
  have 6: "PixelCNN_forward net xs' =
        (net\<lparr>layers := Masked L' # ReLU # ls' @ [Conv last]\<rparr>, Inr (map (map (map (map sigmoid))) zs'))"
    by (simp add: PixelCNN_forward_def 2)
  from 5 6 3 4 s3 show ?thesis by blast
qed

section \<open>Constructors return, the sigmoid is bounded\<close>

lemma sigmoid_bounds: "0 < sigmoid z" "sigmoid z < 1"
proof -
  have "0 < exp (- z)" by simp
  then show "0 < sigmoid z" "sigmoid z < 1"
    by (simp_all add: sigmoid_def add_pos_pos)
qed

lemma MaskedConv2d_init_ok:
  assumes "mt = ''A'' \<or> mt = ''B''" "0 < KH"
  shows "\<exists>L. MaskedConv2d_init cin cout (KH, KW) pad mt winit binit = Inr L"
  using assms by (auto simp: MaskedConv2d_init_def Let_def Conv2d_init_def)

lemma hidden_layers_ok:
  assumes "0 < k"
  shows "\<exists>ls. hidden_layers hc (k, k) pad winit binit idxs = Inr ls"
proof (induction idxs)
  case Nil
  show ?case by simp
next
  case (Cons l idxs)
  then obtain ls where "hidden_layers hc (k, k) pad winit binit idxs = Inr ls" by blast
  moreover obtain L where "MaskedConv2d_init hc hc (k, k) pad ''B'' (winit l) (binit l) = Inr L"
    using MaskedConv2d_init_ok [of "''B''" k] assms by blast
  ultimately show ?case by simp
qed

lemma PixelCNN_init_ok:
  assumes "0 < k"
  shows "\<exists>net. PixelCNN_init ic hc k nl winit binit = Inr net"
proof -
  obtain L where "MaskedConv2d_init ic hc (k, k) (k div 2, k div 2) ''A'' (winit 0) (binit 0) = Inr L"
    using MaskedConv2d_init_ok [of "''A''" k] assms by blast
  moreover obtain ls
    where "hidden_layers hc (k, k) (k div 2, k div 2) winit binit [1..<Suc (nat (nl - 2))] = Inr ls"
    using hidden_layers_ok [OF assms] by blast
  ultimately show ?thesis by (simp add: PixelCNN_init_def Let_def)
qed

lemma upt_3: "[0..<3] = [0, 1, 2]"
  by code_simp

section \<open>The two halves of a batch\<close>

lemma map2_add_zero_right: "map2 (+) xs (map (\<lambda>_. 0) xs) = (xs :: real list)"
  by (induction xs) simp_all

lemma map2_add_zero_left: "map2 (+) (map (\<lambda>_. 0) xs) xs = (xs :: real list)"
  by (induction xs) simp_all

lemma add2_split_rows:
  "map2 (map2 (+)) (zero_rows_from k t) (zero_rows_upto k t) = t"
proof (rule nth_equalityI)
  show "length (map2 (map2 (+)) (zero_rows_from k t) (zero_rows_upto k t)) = length t"
    by simp
next
  fix i
  assume "i < length (map2 (map2 (+)) (zero_rows_from k t) (zero_rows_upto k t))"
  then have i: "i < length t" by simp
  then show "map2 (map2 (+)) (zero_rows_from k t) (zero_rows_upto k t) ! i = t ! i"
    by (simp add: nth_zero_rows_from nth_zero_rows_upto map2_add_zero_right map2_add_zero_left)
qed

lemma add4_split: "add4 (map (map (zero_rows_from k)) xs) (map (map (zero_rows_upto k)) xs) = xs"
  by (simp add: add4_def map2_map_map add2_split_rows)

lemma zero_rows_from_idem: "zero_rows_from k (zero_rows_from k t) = zero_rows_from k t"
  by (rule nth_equalityI) (simp_all add: nth_zero_rows_from)

lemma sizes_zero_rows_from: "map length (zero_rows_from k t) = map length t"
  by (rule nth_equalityI) (simp_all add: nth_zero_rows_from)

lemma sizes_zero_rows_upto: "map length (zero_rows_upto k t) = map length t"
  by (rule nth_equalityI) (simp_all add: nth_zero_rows_upto)

lemma split_top_nth:
  assumes "n < length xs" "ch < length (xs ! n)" "r < length (xs ! n ! ch)"
    and "col < length (xs ! n ! ch ! r)"
  shows "map (map (zero_rows_from k)) xs ! n ! ch ! r ! col =
           (if r < k then xs ! n ! ch ! r ! col else 0)"
  using assms by (simp add: nth_zero_rows_from)

lemma split_bottom_nth:
  assumes "n < length xs" "ch < length (xs ! n)" "r < length (xs ! n ! ch)"
    and "col < length (xs ! n ! ch ! r)"
  shows "map (map (zero_rows_upto k)) xs ! n ! ch ! r ! col =
           (if r < k then 0 else xs ! n ! ch ! r ! col)"
  using assms by (simp add: nth_zero_rows_upto)

lemma add4_nth:
  assumes a: "shape4 A B C D a" and b: "shape4 A B C D b"
    and i: "n < A" "ci < B" "i < C" "j < D"
  shows "add4 a b ! n ! ci ! i ! j = a ! n ! ci ! i ! j + b ! n ! ci ! i ! j"
proof -
  have la: "length a = A" "length (a ! n) = B" "length (a ! n ! ci) = C"
      "length (a ! n ! ci ! i) = D"
    using a i by (simp_all add: shape4_def shape3_def shape2_def list_all_length)
  have lb: "length b = A" "length (b ! n) = B" "length (b ! n ! ci) = C"
      "length (b ! n ! ci ! i) = D"
    using b i by (simp_all add: shape4_def shape3_def shape2_def list_all_length)
  show ?thesis
    unfolding add4_def using la lb i by (simp add: map2_nth)
qed

lemma sizes4_shape4:
  assumes "shape4 N C H W t"
  shows "sizes4 t = replicate N (replicate C (replicate H W))"
proof -
  have 2: "map length k = replicate H W" if "shape2 H W k" for k :: tensor2
    using that by (intro nth_equalityI) (simp_all add: shape2_def list_all_length)
  have 3: "map (map length) x = replicate C (replicate H W)" if "shape3 C H W x" for x :: tensor3
    using that by (intro nth_equalityI) (simp_all add: shape3_def list_all_length 2)
  show ?thesis
    unfolding sizes4_def using assms
    by (intro nth_equalityI) (simp_all add: shape4_def list_all_length 3)
qed

lemma shape4_split_top:
  assumes "shape4 N C H W xs"
  shows "shape4 N C H W (map (map (zero_rows_from k)) xs)"
  using assms by (simp add: shape4_def shape3_def list_all_length shape2_zero_rows_from)

lemma agree_before_refl: "agree_before r c x x"
  by (simp add: agree_before_iff)

section \<open>Masking twice\<close>

lemma map2_idem:
  assumes "\<And>w m. m \<in> set ms \<Longrightarrow> f (f w m) m = f w m"
  shows "map2 f (map2 f ws ms) ms = map2 f ws ms"
  using assms
proof (induction ws arbitrary: ms)
  case Nil
  show ?case by simp
next
  case (Cons w ws)
  then show ?case by (cases ms) simp_all
qed

lemma mul4_idem:
  assumes "\<forall>a\<in>set m. \<forall>b\<in>set a. \<forall>c\<in>set b. \<forall>v\<in>set c. v = 0 \<or> v = 1"
  shows "mul4 (mul4 w m) m = mul4 w m"
  unfolding mul4_def
  by (intro map2_idem) (use assms in auto)

lemma zero_from_binary:
  assumes "\<forall>v\<in>set row. v = 0 \<or> v = 1" "u \<in> set (zero_from j0 row)"
  shows "u = 0 \<or> u = 1"
  using assms by (auto simp: zero_from_def dest: in_set_takeD in_set_dropD)

lemma kernel_mask_binary:
  assumes "row \<in> set (zero_rows_from i0 (zero_row_tail i j0 (map (map (\<lambda>_. 1)) k)))"
    and "v \<in> set row"
  shows "v = 0 \<or> v = 1"
proof -
  let ?k1 = "map (map (\<lambda>_. 1::real)) k"
  have k1: "\<forall>v\<in>set r. v = 0 \<or> v = 1" if "r \<in> set ?k1" for r
    using that by auto
  have k2: "\<forall>v\<in>set r. v = 0 \<or> v = 1" if "r \<in> set (zero_row_tail i j0 ?k1)" for r
  proof -
    from that have "r \<in> set ?k1 \<or> r = zero_from j0 (?k1 ! i) \<and> i < length ?k1"
      unfolding zero_row_tail_def
      by (metis in_set_conv_nth length_list_update nth_list_update_eq nth_list_update_neq)
    then show ?thesis
    proof
      assume "r \<in> set ?k1"
      then show ?thesis by (rule k1)
    next
      assume r: "r = zero_from j0 (?k1 ! i) \<and> i < length ?k1"
      then have "?k1 ! i \<in> set ?k1" by (intro nth_mem) simp
      from k1 [OF this] r show ?thesis using zero_from_binary by blast
    qed
  qed
  from assms(1) have "row \<in> set (zero_row_tail i j0 ?k1) \<or>
      (\<exists>r\<in>set (zero_row_tail i j0 ?k1). row = map (\<lambda>_. 0) r)"
    by (auto simp: zero_rows_from_def dest: in_set_takeD in_set_dropD)
  with k2 assms(2) show ?thesis by auto
qed

lemma build_mask_binary:
  "\<forall>a\<in>set (build_mask w H W mt). \<forall>b\<in>set a. \<forall>c\<in>set b. \<forall>v\<in>set c. v = 0 \<or> v = 1"
  unfolding build_mask_def fill4_def Let_def
  by (auto simp del: map_map dest: kernel_mask_binary)

lemma repeat_forward_same:
  assumes "\<forall>a\<in>set (mask L). \<forall>b\<in>set a. \<forall>c\<in>set b. \<forall>v\<in>set c. v = 0 \<or> v = 1"
  shows "repeat_forward m L xs = MaskedConv2d_forward L xs"
  using assms
proof (induction m arbitrary: L)
  case 0
  show ?case by simp
next
  case (Suc m)
  let ?L1 = "L\<lparr>weight := mul4 (weight L) (mask L)\<rparr>"
  have "repeat_forward (Suc m) L xs = repeat_forward m ?L1 xs"
    by (simp add: MaskedConv2d_forward_def Let_def)
  also have "\<dots> = MaskedConv2d_forward ?L1 xs"
    using Suc.prems by (intro Suc.IH) simp
  also have "\<dots> = MaskedConv2d_forward L xs"
    by (simp add: MaskedConv2d_forward_def Let_def mul4_idem [OF Suc.prems])
  finally show ?case .
qed

section \<open>What calls and training leave unchanged\<close>

lemma layer_call_fixed:
  assumes "layer_call l xs = (l', res)"
  shows "layer_fixed l' = layer_fixed l"
  using assms by (cases l) (auto simp: MaskedConv2d_forward_def Let_def)

lemma run_layers_fixed:
  assumes "run_layers ls xs = (ls', res)"
  shows "map layer_fixed ls' = map layer_fixed ls"
  using assms
proof (induction ls arbitrary: xs ls' res)
  case Nil
  then show ?case by simp
next
  case (Cons l ls)
  obtain l' r where lc: "layer_call l xs = (l', r)" by (cases "layer_call l xs")
  note f = layer_call_fixed [OF lc]
  show ?case
  proof (cases r)
    case (Inl e)
    with Cons.prems lc f show ?thesis by auto
  next
    case (Inr ys)
    obtain ls1 r1 where rl: "run_layers ls ys = (ls1, r1)" by (cases "run_layers ls ys")
    from Cons.IH [OF rl] Cons.prems lc Inr rl f show ?thesis by auto
  qed
qed

lemma PixelCNN_forward_fixed:
  assumes "PixelCNN_forward net xs = (net', res)"
  shows "map layer_fixed (layers net') = map layer_fixed (layers net)"
proof -
  obtain ls1 r1 where rl: "run_layers (layers net) xs = (ls1, r1)"
    by (cases "run_layers (layers net) xs")
  from assms run_layers_fixed [OF rl] show ?thesis
    by (auto simp: PixelCNN_forward_def rl)
qed

lemma set_parameters_fixed: "layer_fixed (set_parameters p l) = layer_fixed l"
  by (cases p; cases l) simp_all

lemma optimizer_step_fixed:
  "map layer_fixed (layers (optimizer_step new net)) = map layer_fixed (layers net)"
  by (rule nth_equalityI) (simp_all add: optimizer_step_def nth_enumerate_eq set_parameters_fixed)

lemma train_step_fixed:
  assumes "train_step opt s images = (s', e)"
  shows "map layer_fixed (layers (snd s')) = map layer_fixed (layers (snd s))"
proof -
  obtain top_half bottom_half where sp: "split_top_bottom images = (top_half, bottom_half)"
    by (cases "split_top_bottom images")
  obtain model1 r where fw: "PixelCNN_forward (snd s) top_half = (model1, r)"
    by (cases "PixelCNN_forward (snd s) top_half")
  note f = PixelCNN_forward_fixed [OF fw]
  show ?thesis
  proof (cases r)
    case (Inl err)
    with assms sp fw f show ?thesis by (auto simp: train_step_def)
  next
    case (Inr outputs)
    obtain st' new where o: "opt (fst s) model1 outputs bottom_half = (st', new)"
      by (cases "opt (fst s) model1 outputs bottom_half")
    from assms sp fw f Inr o show ?thesis
      by (auto simp: train_step_def optimizer_step_fixed split: if_splits)
  qed
qed

lemma train_batches_fixed:
  assumes "train_batches opt s batches = (s', e)"
  shows "map layer_fixed (layers (snd s')) = map layer_fixed (layers (snd s))"
  using assms
proof (induction batches arbitrary: s)
  case Nil
  then show ?case by simp
next
  case (Cons images rest)
  obtain s1 e1 where ts: "train_step opt s images = (s1, e1)"
    by (cases "train_step opt s images")
  note f = train_step_fixed [OF ts]
  show ?case
  proof (cases e1)
    case None
    with Cons.prems ts have "train_batches opt s1 rest = (s', e)" by simp
    from Cons.IH [OF this] f show ?thesis by simp
  next
    case (Some err)
    with Cons.prems ts f show ?thesis by auto
  qed
qed

lemma train_fixed:
  assumes "train opt s epochs = (s', e)"
  shows "map layer_fixed (layers (snd s')) = map layer_fixed (layers (snd s))"
  using assms
proof (induction epochs arbitrary: s)
  case Nil
  then show ?case by simp
next
  case (Cons epoch rest)
  obtain s1 e1 where tb: "train_batches opt s epoch = (s1, e1)"
    by (cases "train_batches opt s epoch")
  note f = train_batches_fixed [OF tb]
  show ?case
  proof (cases e1)
    case None
    with Cons.prems tb have "train opt s1 rest = (s', e)" by simp
    from Cons.IH [OF this] f show ?thesis by simp
  next
    case (Some err)
    with Cons.prems tb f show ?thesis by auto
  qed
qed

lemma layer_mask_fixed: "layer_mask (layer_fixed l) = layer_mask l"
  by (cases l) simp_all

lemma masks_fixed:
  assumes "map layer_fixed (layers net') = map layer_fixed (layers net)"
  shows "masks net' = masks net"
proof -
  have "masks n = map layer_mask (map layer_fixed (layers n))" for n
    by (simp add: masks_def layer_mask_fixed)
  then show ?thesis by (simp only: assms)
qed

section \<open>Sessions\<close>

lemma session_without_training_model:
  assumes "session_without_training g"
  shows "g ''model'' = None"
proof (rule ccontr)
  assume "g ''model'' \<noteq> None"
  then have "''model'' \<in> dom g" by (simp add: dom_def)
  with assms show False by (auto simp: session_without_training_def)
qed

section \<open>The completed batch and its display\<close>

lemma drawable_gray:
  assumes "shape3 1 H W x" "1 < H" "1 < W"
  shows "drawable x"
proof -
  have "length x = 1" using assms(1) by (simp add: shape3_def)
  moreover have "img_height x = H" "img_width x = W"
    using img_size [OF assms(1)] assms(2) by simp_all
  ultimately show ?thesis using assms(2,3) by (simp add: drawable_def squeezed_shape_def)
qed

text \<open>What \<open>complete_images\<close> computes for a network with an odd kernel size, on a
  batch of at least \<open>num_samples\<close> grey images: the prediction is positive everywhere,
  and column \<open>n\<close> of the figure holds the original image, its top half and the
  completed image, which is the prediction from row 14 on and the original plus the
  prediction above it.\<close>

lemma complete_images_entries:
  assumes init: "PixelCNN_init 1 hc k nl winit binit = Inr model"
    and k: "odd k" and hc: "0 < hc"
    and imgs: "shape4 N 1 H W images" and big: "1 < H" "1 < W"
    and ns: "1 < num_samples" "nat num_samples \<le> N"
    and idx: "n < nat num_samples" "r < H" "col < W"
  shows "\<exists>model' predicted fig.
           PixelCNN_forward model (fst (split_top_bottom images)) = (model', Inr predicted) \<and>
           shape4 N 1 H W predicted \<and>
           complete_images model (images # rest) num_samples = (model', Inr (Some fig)) \<and>
           length fig = nat num_samples \<and>
           fst (fig ! n) = images ! n \<and>
           fst (snd (fig ! n)) = fst (split_top_bottom images) ! n \<and>
           0 < predicted ! n ! 0 ! r ! col \<and>
           snd (snd (fig ! n)) ! 0 ! r ! col =
             (if r < 14 then images ! n ! 0 ! r ! col + predicted ! n ! 0 ! r ! col
              else predicted ! n ! 0 ! r ! col)"
proof -
  define top_half where "top_half = map (map (zero_rows_from 14)) images"
  have st: "split_top_bottom images = (top_half, map (map (zero_rows_upto 14)) images)"
    by (simp add: split_top_bottom_def Let_def top_half_def)
  have sh_top: "shape4 N 1 H W top_half"
    unfolding top_half_def by (rule shape4_split_top [OF imgs])
  have nN: "n < N" using idx(1) ns(2) by simp
  have p: "(0::nat) < 1" "0 < H" "0 < W" using idx by simp_all
  from PixelCNN_forward_step [OF init p(1) hc p(2,3) nN sh_top sh_top
      agree_before_refl [of r col "top_half ! n"]]
  obtain model' zs zs' H' W'
    where f: "PixelCNN_forward model top_half = (model', Inr (map (map (map (map sigmoid))) zs))"
      and hw: "odd k \<longrightarrow> H' = H \<and> W' = W"
      and s: "same_upto n r col N 1 H' W' zs zs'"
    by blast
  define predicted where "predicted = map (map (map (map sigmoid))) zs"
  from s hw k have sh_zs: "shape4 N 1 H W zs" by (simp add: same_upto_def)
  then have sh_pred: "shape4 N 1 H W predicted"
    unfolding predicted_def by (rule shape4_map4)
  have sizes: "sizes4 top_half = sizes4 predicted"
    by (simp add: sizes4_shape4 [OF sh_top] sizes4_shape4 [OF sh_pred])
  have cb: "complete_batch model images = (model', Inr (top_half, add4 top_half predicted))"
    using f sizes by (simp add: complete_batch_def st predicted_def)
  have len: "length images = N" using imgs by (simp add: shape4_def)
  have N0: "0 < N" using nN by simp
  have "drawable (images ! 0)"
    by (rule drawable_gray [OF shape4_nth [OF imgs N0] big])
  then have ss: "show_samples num_samples images top_half (add4 top_half predicted) =
      Inr (map (\<lambda>i. (images ! i, top_half ! i, add4 top_half predicted ! i))
             [0..<nat num_samples])"
    using ns len N0 by (auto simp: show_samples_def)
  define fig where "fig = map (\<lambda>i. (images ! i, top_half ! i, add4 top_half predicted ! i))
             [0..<nat num_samples]"
  have c: "complete_images model (images # rest) num_samples = (model', Inr (Some fig))"
    by (simp add: complete_images_def cb ss fig_def)
  have fn: "fig ! n = (images ! n, top_half ! n, add4 top_half predicted ! n)"
    using idx(1) by (simp add: fig_def)
  have pr: "predicted ! n ! 0 ! r ! col = sigmoid (zs ! n ! 0 ! r ! col)"
    unfolding predicted_def by (rule map4_nth [OF sh_zs nN p(1) idx(2,3)])
  have ln: "n < length images" "0 < length (images ! n)" "r < length (images ! n ! 0)"
      "col < length (images ! n ! 0 ! r)"
    using imgs nN idx by (simp_all add: shape4_def shape3_def shape2_def list_all_length)
  have tp: "top_half ! n ! 0 ! r ! col = (if r < 14 then images ! n ! 0 ! r ! col else 0)"
    unfolding top_half_def by (rule split_top_nth [OF ln])
  have "add4 top_half predicted ! n ! 0 ! r ! col =
          (if r < 14 then images ! n ! 0 ! r ! col + predicted ! n ! 0 ! r ! col
           else predicted ! n ! 0 ! r ! col)"
    unfolding add4_nth [OF sh_top sh_pred nN p(1) idx(2,3)] tp by simp
  moreover have "0 < predicted ! n ! 0 ! r ! col"
    unfolding pr by (rule sigmoid_bounds)
  moreover have "PixelCNN_forward model (fst (split_top_bottom images)) = (model', Inr predicted)"
    using f by (simp add: st predicted_def)
  moreover have "length fig = nat num_samples" by (simp add: fig_def)
  moreover have "fst (fig ! n) = images ! n" "fst (snd (fig ! n)) = fst (split_top_bottom images) ! n"
    "snd (snd (fig ! n)) = add4 top_half predicted ! n"
    by (simp_all add: fn st)
  ultimately show ?thesis using c sh_pred by (intro exI [of _ model'] exI [of _ predicted] exI [of _ fig]) simp
qed


lemma sum_list_zero:
  assumes "\<And>x. x \<in> set xs \<Longrightarrow> f x = (0::real)"
  shows "sum_list (map f xs) = 0"
  using assms by (induction xs) simp_all

lemma conv_at_zero:
  assumes "\<And>ci i j. ci < cin \<Longrightarrow> i < fst ks \<Longrightarrow> j < snd ks \<Longrightarrow> w ! oc ! ci ! i ! j = 0"
    and "b ! oc = 0"
  shows "conv_at w b cin ks pad x oc r c = 0"
proof -
  have "(\<Sum>ci\<leftarrow>[0..<cin]. \<Sum>i\<leftarrow>[0..<fst ks]. \<Sum>j\<leftarrow>[0..<snd ks].
           w ! oc ! ci ! i ! j * pad_get (x ! ci) pad (r + i) (c + j)) = 0"
    by (intro sum_list_zero) (simp add: assms(1))
  with assms(2) show ?thesis by (simp add: conv_at_def)
qed

text \<open>A convolution whose weights and biases are all zero returns zeros only.\<close>

lemma zero_conv_entries:
  assumes "Conv2d_forward (Conv2d_init cin cout (KH, KW) pad (\<lambda>_ _ _ _. 0) (\<lambda>_. 0)) vs = Inr zs"
    and "img \<in> set zs" "chn \<in> set img" "row \<in> set chn" "y \<in> set row"
  shows "y = 0"
proof -
  define L where "L = Conv2d_init cin cout (KH, KW) pad (\<lambda>_ _ _ _. 0) (\<lambda>_. 0)"
  have Lf: "in_channels L = cin" "out_channels L = cout" "kernel_size L = (KH, KW)"
      "padding L = pad" "bias L = map (\<lambda>_. 0) [0..<cout]"
    by (simp_all add: L_def Conv2d_init_def)
  from assms(1) have "zs = map (conv2d_image (weight L) (bias L) cin cout (KH, KW) pad) vs"
    unfolding L_def [symmetric] by (auto simp: Conv2d_forward_def Lf split: if_splits)
  with assms(2) obtain v where img: "img = conv2d_image (weight L) (bias L) cin cout (KH, KW) pad v"
    by auto
  from assms(3) obtain oc where oc: "oc < cout"
    and chn: "chn = map (\<lambda>r. map (\<lambda>c. conv_at (weight L) (bias L) cin (KH, KW) pad v oc r c)
            [0..<out_size (img_width v) (snd pad) KW])
          [0..<out_size (img_height v) (fst pad) KH]"
    unfolding img conv2d_image_def by auto
  from assms(4,5) obtain r c where "y = conv_at (weight L) (bias L) cin (KH, KW) pad v oc r c"
    unfolding chn by auto
  moreover have "conv_at (weight L) (bias L) cin (KH, KW) pad v oc r c = 0"
  proof (rule conv_at_zero)
    show "bias L ! oc = 0" using oc by (simp add: Lf)
  next
    fix ci i j
    assume "ci < cin" "i < fst (KH, KW)" "j < snd (KH, KW)"
    then show "weight L ! oc ! ci ! i ! j = 0"
      unfolding L_def using weight_Conv2d_init_nth [OF oc, of ci cin i KH j KW] by simp
  qed
  ultimately show ?thesis by simp
qed

lemma run_layers_last:
  assumes "run_layers (ls @ [Conv L]) xs = (ls', Inr zs)"
  shows "\<exists>vs. Conv2d_forward L vs = Inr zs"
  using assms
proof (induction ls arbitrary: xs ls')
  case Nil
  then show ?case by (auto split: sum.splits)
next
  case (Cons l ls)
  obtain l' res where lc: "layer_call l xs = (l', res)" by (cases "layer_call l xs")
  show ?case
  proof (cases res)
    case (Inl e)
    with Cons.prems lc show ?thesis by simp
  next
    case (Inr ys)
    obtain ls1 r1 where rl: "run_layers (ls @ [Conv L]) ys = (ls1, r1)"
      by (cases "run_layers (ls @ [Conv L]) ys")
    with Cons.prems lc Inr have "r1 = Inr zs" by simp
    with rl Cons.IH show ?thesis by blast
  qed
qed

text \<open>With all parameters zero, every entry the network returns is \<open>sigmoid 0 = 1/2\<close>.\<close>

lemma zero_network_entries:
  assumes init: "PixelCNN_init ic hc k nl (\<lambda>_ _ _ _ _. 0) (\<lambda>_ _. 0) = Inr model"
    and fw: "PixelCNN_forward model xs = (model', Inr ys)"
    and sh: "shape4 N C H W ys" and idx: "n < N" "ch < C" "r < H" "col < W"
  shows "ys ! n ! ch ! r ! col = 1 / 2"
proof -
  from init obtain first hidden
    where ls: "layers model = Masked first # ReLU # hidden @
         [Conv (Conv2d_init hc ic (1, 1) (0, 0) (\<lambda>_ _ _ _. 0) (\<lambda>_. 0))]"
    by (rule PixelCNN_init_Inr)
  obtain ls' res where rl: "run_layers (layers model) xs = (ls', res)"
    by (cases "run_layers (layers model) xs")
  with fw obtain zs where res: "res = Inr zs" and ys: "ys = map (map (map (map sigmoid))) zs"
    by (auto simp: PixelCNN_forward_def split: sum.splits)
  have "run_layers ((Masked first # ReLU # hidden) @
         [Conv (Conv2d_init hc ic (1, 1) (0, 0) (\<lambda>_ _ _ _. 0) (\<lambda>_. 0))]) xs = (ls', Inr zs)"
    using rl res by (simp add: ls)
  from run_layers_last [OF this]
  obtain vs where c: "Conv2d_forward (Conv2d_init hc ic (1, 1) (0, 0) (\<lambda>_ _ _ _. 0) (\<lambda>_. 0)) vs = Inr zs"
    by blast
  have szs: "shape4 N C H W zs"
    using sh unfolding ys by (simp add: shape4_def shape3_def shape2_def list_all_length)
  have l: "n < length zs" "ch < length (zs ! n)" "r < length (zs ! n ! ch)"
      "col < length (zs ! n ! ch ! r)"
    using szs idx by (simp_all add: shape4_def shape3_def shape2_def list_all_length)
  have "zs ! n ! ch ! r ! col = 0"
    by (rule zero_conv_entries [OF c nth_mem [OF l(1)] nth_mem [OF l(2)] nth_mem [OF l(3)]
          nth_mem [OF l(4)]])
  then show ?thesis
    unfolding ys map4_nth [OF szs idx] by (simp add: sigmoid_def)
qed

lemma upt_5: "[0..<5] = [0, 1, 2, 3, 4]"
  by code_simp

lemma upt_2: "[0..<2] = [0, 1]"
  by code_simp

text \<open>With a model bound, and the other names the body reads, the inference cell
  displays the first five images of the first batch.\<close>

lemma inference_cell_with_model:
  "\<exists>net. PixelCNN_init 1 1 1 2 (\<lambda>_ _ _ _ _. 1) (\<lambda>_ _. 0) = Inr net \<and>
     snd (inference_cell [''torch'' \<mapsto> Other, ''plt'' \<mapsto> Other, ''device'' \<mapsto> Other,
        ''split_top_bottom'' \<mapsto> Function,
        ''test_loader'' \<mapsto> Loader [replicate 5 [[[3, 3], [3, 3]]]],
        ''model'' \<mapsto> Model net]) =
       Inr (Some (replicate 5
         ([[[3, 3], [3, 3]]], [[[3, 3], [3, 3]]], [[[7 / 2, 7 / 2], [7 / 2, 7 / 2]]])))"
proof -
  obtain net where net: "PixelCNN_init 1 1 1 2 (\<lambda>_ _ _ _ _. 1) (\<lambda>_ _. 0) = Inr net"
    using PixelCNN_init_ok [of 1 1 1 2 "\<lambda>_ _ _ _ _. 1" "\<lambda>_ _. 0"] by auto
  then have ls: "layers net =
      [Masked \<lparr>in_channels = 1, out_channels = 1, kernel_size = (1, 1), padding = (0, 0),
               weight = [[[[1]]]], bias = [0], mask = [[[[0]]]]\<rparr>,
       ReLU,
       Conv \<lparr>in_channels = 1, out_channels = 1, kernel_size = (1, 1), padding = (0, 0),
               weight = [[[[1]]]], bias = [0]\<rparr>]"
    by (auto simp: PixelCNN_init_def MaskedConv2d_init_def Let_def Conv2d_init_def build_mask_def
        fill4_def zero_row_tail_def zero_rows_from_def zero_from_def Conv2d.defs MaskedConv2d.defs)
  have r5: "replicate 5 x = [x, x, x, x, x]" for x :: "'a"
    by (simp add: numeral_eq_Suc)
  have "snd (inference_cell [''torch'' \<mapsto> Other, ''plt'' \<mapsto> Other, ''device'' \<mapsto> Other,
        ''split_top_bottom'' \<mapsto> Function,
        ''test_loader'' \<mapsto> Loader [replicate 5 [[[3, 3], [3, 3]]]],
        ''model'' \<mapsto> Model net]) =
       Inr (Some (replicate 5
         ([[[3, 3], [3, 3]]], [[[3, 3], [3, 3]]], [[[7 / 2, 7 / 2], [7 / 2, 7 / 2]]])))"
    unfolding r5
    by (simp add: inference_cell_def need_def complete_batch_def show_samples_def drawable_def
        squeezed_shape_def split_top_bottom_def upt_5 upt_2
        zero_rows_from_def zero_rows_upto_def sizes4_def add4_def
        PixelCNN_forward_def ls MaskedConv2d_forward_def Conv2d_forward_def Let_def
        mul4_def img_height_def img_width_def conv2d_image_def out_size_def conv_at_def
        pad_get_def relu_def sigmoid_def)
  with net show ?thesis by blast
qed

text \<open>On a batch of fewer than five images the display raises an IndexError.\<close>

lemma complete_images_small_batch:
  assumes "complete_batch model images = (model', Inr (top_half, completed_images))"
    and "length images < 5"
  shows "\<exists>e. complete_images model (images # rest) 5 = (model', Inl e) \<and>
           (e = IndexError \<or> e = TypeError)"
  using assms by (simp add: complete_images_def show_samples_def)

section \<open>Autoregressive noninterference of the network\<close>

text \<open>
  Claim C1. For a network built by the PixelCNN constructor (a type-A masked layer, ReLU,
  type-B masked layers with ReLU, a 1 x 1 convolution, then the sigmoid) and two input
  batches of the same size whose \<open>n\<close>-th images agree at every position before
  \<open>(r, c)\<close> in raster order, both forward passes return, and their outputs at
  sample \<open>n\<close>, position \<open>(r, c)\<close> are equal in every channel. The inputs may differ at
  \<open>(r, c)\<close> and at every later position.
\<close>

theorem pixelcnn_noninterference:
  assumes init: "PixelCNN_init ic hc k nl winit binit = Inr net"
    and hc: "0 < hc"
    and xs: "shape4 N ic H W xs" and xs': "shape4 N ic H W xs'"
    and pos: "n < N" "oc < ic" "r < H" "c < W"
    and agree: "agree_before r c (xs ! n) (xs' ! n)"
  shows "\<exists>net' ys ys'. PixelCNN_forward net xs = (net', Inr ys) \<and>
           PixelCNN_forward net xs' = (net', Inr ys') \<and>
           ys ! n ! oc ! r ! c = ys' ! n ! oc ! r ! c"
proof -
  have p: "0 < ic" "0 < H" "0 < W" using pos by simp_all
  from PixelCNN_forward_step [OF init p(1) hc p(2,3) pos(1) xs xs' agree]
  obtain net' zs zs' H' W'
    where f: "PixelCNN_forward net xs = (net', Inr (map (map (map (map sigmoid))) zs))"
      "PixelCNN_forward net xs' = (net', Inr (map (map (map (map sigmoid))) zs'))"
    and b: "H \<le> H'" "W \<le> W'"
    and s: "same_upto n r c N ic H' W' zs zs'"
    by blast
  from same_upto_map4 [OF s pos(1), of sigmoid]
  have sh: "shape4 N ic H' W' (map (map (map (map sigmoid))) zs)"
    and ag: "agree_upto r c (map (map (map (map sigmoid))) zs ! n)
               (map (map (map (map sigmoid))) zs' ! n)"
    by (simp_all add: same_upto_def)
  have "map (map (map (map sigmoid))) zs ! n ! oc ! r ! c =
        map (map (map (map sigmoid))) zs' ! n ! oc ! r ! c"
    by (rule agree_uptoD [OF ag shape4_nth [OF sh pos(1)] pos(2)]) (use pos b in simp_all)
  with f show ?thesis by blast
qed

theorem pixelcnn_noninterference_witness:
  "\<exists>net net' ys ys'.
     PixelCNN_init 1 2 3 3 (\<lambda>_ _ _ _ _. 1) (\<lambda>_ _. 0) = Inr net \<and>
     agree_before 1 1 [[[1, 2], [3, 4]]] [[[1, 2], [3, 7]]] \<and>
     PixelCNN_forward net [[[[1, 2], [3, 4]]]] = (net', Inr ys) \<and>
     PixelCNN_forward net [[[[1, 2], [3, 7]]]] = (net', Inr ys') \<and>
     ys ! 0 ! 0 ! 1 ! 1 = ys' ! 0 ! 0 ! 1 ! 1"
proof -
  obtain net where net: "PixelCNN_init 1 2 3 3 (\<lambda>_ _ _ _ _. 1) (\<lambda>_ _. 0) = Inr net"
    using PixelCNN_init_ok [of 3 1 2 3 "\<lambda>_ _ _ _ _. 1" "\<lambda>_ _. 0"] by auto
  have sh: "shape4 1 1 2 2 [[[[1, 2], [3, 4::real]]]]" "shape4 1 1 2 2 [[[[1, 2], [3, 7::real]]]]"
    by (simp_all add: shape4_def shape3_def shape2_def)
  have ag: "agree_before 1 1 ([[[[1, 2], [3, 4]]]] ! 0) ([[[[1, 2], [3, 7]]]] ! 0)"
    by (auto simp: agree_before_iff raster_before_def nth_Cons' less_Suc_eq)
  from pixelcnn_noninterference [OF net _ sh _ _ _ _ ag, of 0]
  obtain net' ys ys' where "PixelCNN_forward net [[[[1, 2], [3, 4]]]] = (net', Inr ys)"
      "PixelCNN_forward net [[[[1, 2], [3, 7]]]] = (net', Inr ys')"
      "ys ! 0 ! 0 ! 1 ! 1 = ys' ! 0 ! 0 ! 1 ! 1"
    by auto
  with net ag show ?thesis by auto
qed

section \<open>The mask\<close>

text \<open>
  Claim C2. The mask a MaskedConv2d constructor builds for a kernel of height \<open>H\<close> and
  width \<open>W\<close> is 0 at kernel position \<open>(i, j)\<close> when \<open>i > H div 2\<close>, or \<open>i = H div 2\<close> and
  \<open>j \<ge> W div 2 + (0 for mask type 'A', 1 otherwise)\<close>, and 1 everywhere else; the
  centre \<open>(H div 2, W div 2)\<close> is 0 for type 'A' and 1 for type 'B'. This holds for
  every kernel size the constructor accepts, odd sizes among them.
\<close>

theorem mask_construction:
  assumes "MaskedConv2d_init cin cout (H, W) pad mt winit binit = Inr L"
    and "oc < cout" and "ci < cin"
  shows "(\<forall>i<H. \<forall>j<W. mask L ! oc ! ci ! i ! j =
            (if H div 2 < i \<or> (i = H div 2 \<and> W div 2 + (if mt = ''A'' then 0 else 1) \<le> j)
             then 0 else 1))
       \<and> (0 < W \<longrightarrow> mask L ! oc ! ci ! (H div 2) ! (W div 2) = (if mt = ''A'' then 0 else 1))"
proof -
  note init = MaskedConv2d_init_Inr [OF assms(1)]
  have mt: "(if mt = ''B'' then 1 else (0::nat)) = (if mt = ''A'' then 0 else 1)"
    using init(1) by auto
  have entry: "mask L ! oc ! ci ! i ! j =
       (if H div 2 < i \<or> (i = H div 2 \<and> W div 2 + (if mt = ''A'' then 0 else 1) \<le> j)
        then 0 else 1)" if "i < H" "j < W" for i j
    unfolding init(3) mt [symmetric]
    by (rule build_mask_nth) (use assms(2,3) that in \<open>simp_all add: Conv2d_init_def\<close>)
  have "H div 2 < H" using init(2) by simp
  moreover have "W div 2 < W" if "0 < W" using that by simp
  ultimately have "mask L ! oc ! ci ! (H div 2) ! (W div 2) = (if mt = ''A'' then 0 else 1)"
    if "0 < W" using that entry [of "H div 2" "W div 2"] by simp
  with entry show ?thesis by blast
qed

theorem mask_construction_witness:
  "\<exists>L. MaskedConv2d_init 1 1 (3, 3) (1, 1) ''A'' (\<lambda>_ _ _ _. 5) (\<lambda>_. 0) = Inr L
     \<and> mask L ! 0 ! 0 ! 0 ! 2 = 1 \<and> mask L ! 0 ! 0 ! 1 ! 0 = 1
     \<and> mask L ! 0 ! 0 ! 1 ! 1 = 0 \<and> mask L ! 0 ! 0 ! 2 ! 0 = 0"
proof -
  obtain L where L: "MaskedConv2d_init 1 1 (3, 3) (1, 1) ''A'' (\<lambda>_ _ _ _. 5) (\<lambda>_. 0) = Inr L"
    by (simp add: MaskedConv2d_init_def Let_def Conv2d_init_def)
  have "(0::nat) < 1" by simp
  from mask_construction [OF L this this] L show ?thesis
    by (intro exI [of _ L]) simp
qed

section \<open>Completing images\<close>

text \<open>
  Claim C3 at a concrete input. The network has the default architecture (1 input
  channel, 64 hidden channels, kernel size 7, 6 layers) and all its weights and biases
  are 0; the loader holds one batch of five black 28 x 28 images; \<open>num_samples\<close> is 5.
  \<open>complete_images\<close> returns a figure of five columns. In its first column the
  original image has 0 at row 0, column 0, in the given half, and the completed image
  has 1/2 there: above the midpoint the completed image is the given half plus the
  prediction, not the given half. At row 14, below the midpoint, the completed image
  is the prediction, 1/2.
\<close>

theorem complete_images_changes_given_half:
  "\<exists>model model' fig.
     PixelCNN_init 1 64 7 6 (\<lambda>_ _ _ _ _. 0) (\<lambda>_ _. 0) = Inr model \<and>
     complete_images model [replicate 5 [replicate 28 (replicate 28 0)]] 5 =
       (model', Inr (Some fig)) \<and>
     length fig = 5 \<and>
     fst (fig ! 0) ! 0 ! 0 ! 0 = 0 \<and>
     snd (snd (fig ! 0)) ! 0 ! 0 ! 0 = 1 / 2 \<and>
     snd (snd (fig ! 0)) ! 0 ! 14 ! 0 = 1 / 2"
proof -
  define images :: tensor4 where "images = replicate 5 [replicate 28 (replicate 28 0)]"
  obtain model where m: "PixelCNN_init 1 64 7 6 (\<lambda>_ _ _ _ _. 0) (\<lambda>_ _. 0) = Inr model"
    using PixelCNN_init_ok [of 7 1 64 6 "\<lambda>_ _ _ _ _. 0" "\<lambda>_ _. 0"] by auto
  have sh: "shape4 5 1 28 28 images"
    by (simp add: images_def shape4_def shape3_def shape2_def list_all_length)
  have i0: "images ! 0 ! 0 ! r ! 0 = 0" if "r < 28" for r
    using that by (simp add: images_def)
  have top: "\<exists>model' predicted fig.
      PixelCNN_forward model (fst (split_top_bottom images)) = (model', Inr predicted) \<and>
      shape4 5 1 28 28 predicted \<and>
      complete_images model (images # []) 5 = (model', Inr (Some fig)) \<and>
      length fig = nat 5 \<and>
      fst (fig ! 0) = images ! 0 \<and>
      fst (snd (fig ! 0)) = fst (split_top_bottom images) ! 0 \<and>
      0 < predicted ! 0 ! 0 ! r ! 0 \<and>
      snd (snd (fig ! 0)) ! 0 ! r ! 0 =
        (if r < 14 then images ! 0 ! 0 ! r ! 0 + predicted ! 0 ! 0 ! r ! 0
         else predicted ! 0 ! 0 ! r ! 0)" if "r < 28" for r
    by (rule complete_images_entries [OF m _ _ sh]) (use that in simp_all)
  from top [of 0] obtain model' predicted fig
    where f: "PixelCNN_forward model (fst (split_top_bottom images)) = (model', Inr predicted)"
      and sp: "shape4 5 1 28 28 predicted"
      and c: "complete_images model [images] 5 = (model', Inr (Some fig))"
      and len: "length fig = 5"
      and orig: "fst (fig ! 0) = images ! 0"
      and e0: "snd (snd (fig ! 0)) ! 0 ! 0 ! 0 = images ! 0 ! 0 ! 0 ! 0 + predicted ! 0 ! 0 ! 0 ! 0"
    by auto
  from top [of 14] c f obtain predicted' where "(model', Inr predicted') = (model', Inr predicted)"
      and "snd (snd (fig ! 0)) ! 0 ! 14 ! 0 = predicted' ! 0 ! 0 ! 14 ! 0"
    by auto
  then have e14: "snd (snd (fig ! 0)) ! 0 ! 14 ! 0 = predicted ! 0 ! 0 ! 14 ! 0" by simp
  have half: "predicted ! 0 ! 0 ! r ! 0 = 1 / 2" if "r < 28" for r
    by (rule zero_network_entries [OF m f sp]) (use that in simp_all)
  show ?thesis
    using m c len orig e0 e14 half [of 0] half [of 14] i0 [of 0]
    unfolding images_def by auto
qed

section \<open>Splitting a batch\<close>

text \<open>
  Claim C4. For every batch (of 28 x 28 images or of any other size),
  \<open>split_top_bottom\<close> returns a top half that equals the input on rows 0 to 13 and is
  zero from row 14 on, and a bottom half that is zero on rows 0 to 13 and equals the
  input from row 14 on; the elementwise sum of the two halves is the input, and
  splitting the top half again returns it unchanged as the first component.
\<close>

theorem split_top_bottom_partition:
  assumes "split_top_bottom images = (top_half, bottom_half)"
    and "n < length images" "ch < length (images ! n)" "r < length (images ! n ! ch)"
    and "col < length (images ! n ! ch ! r)"
  shows "top_half ! n ! ch ! r ! col = (if r < 14 then images ! n ! ch ! r ! col else 0) \<and>
         bottom_half ! n ! ch ! r ! col = (if r < 14 then 0 else images ! n ! ch ! r ! col) \<and>
         sizes4 top_half = sizes4 images \<and> sizes4 bottom_half = sizes4 images \<and>
         add4 top_half bottom_half = images \<and>
         fst (split_top_bottom top_half) = top_half"
proof -
  from assms(1) have t: "top_half = map (map (zero_rows_from 14)) images"
    and b: "bottom_half = map (map (zero_rows_upto 14)) images"
    by (simp_all add: split_top_bottom_def Let_def)
  have "fst (split_top_bottom top_half) = top_half"
    by (simp add: split_top_bottom_def Let_def t zero_rows_from_idem)
  moreover have "sizes4 top_half = sizes4 images" "sizes4 bottom_half = sizes4 images"
    by (simp_all add: sizes4_def t b sizes_zero_rows_from sizes_zero_rows_upto)
  ultimately show ?thesis
    unfolding t b using split_top_nth [OF assms(2-5)] split_bottom_nth [OF assms(2-5)]
    by (simp add: add4_split)
qed

theorem split_top_bottom_partition_witness:
  "fst (split_top_bottom [[replicate 14 [1, 2] @ [[3, 4]]]]) ! 0 ! 0 ! 13 ! 1 = 2 \<and>
   fst (split_top_bottom [[replicate 14 [1, 2] @ [[3, 4]]]]) ! 0 ! 0 ! 14 ! 1 = 0 \<and>
   snd (split_top_bottom [[replicate 14 [1, 2] @ [[3, 4]]]]) ! 0 ! 0 ! 13 ! 1 = 0 \<and>
   snd (split_top_bottom [[replicate 14 [1, 2] @ [[3, 4]]]]) ! 0 ! 0 ! 14 ! 1 = 4 \<and>
   add4 (fst (split_top_bottom [[replicate 14 [1, 2] @ [[3, 4]]]]))
        (snd (split_top_bottom [[replicate 14 [1, 2] @ [[3, 4]]]]))
     = [[replicate 14 [1, 2] @ [[3, 4]]]]"
proof -
  define images :: tensor4 where "images = [[replicate 14 [1, 2] @ [[3, 4]]]]"
  have s: "split_top_bottom images = (fst (split_top_bottom images), snd (split_top_bottom images))"
    by simp
  have "fst (split_top_bottom images) ! 0 ! 0 ! 13 ! 1 = 2 \<and>
        snd (split_top_bottom images) ! 0 ! 0 ! 13 ! 1 = 0"
    using split_top_bottom_partition [OF s, of 0 0 13 1]
    by (simp add: images_def nth_append)
  moreover have "fst (split_top_bottom images) ! 0 ! 0 ! 14 ! 1 = 0 \<and>
        snd (split_top_bottom images) ! 0 ! 0 ! 14 ! 1 = 4 \<and>
        add4 (fst (split_top_bottom images)) (snd (split_top_bottom images)) = images"
    using split_top_bottom_partition [OF s, of 0 0 14 1]
    by (simp add: images_def nth_append)
  ultimately show ?thesis unfolding images_def by simp
qed

section \<open>Bounded outputs\<close>

text \<open>
  Claim C5. Whatever the layers, their parameters and the input batch, every entry of
  a batch that \<open>PixelCNN.forward\<close> returns lies between 0 and 1.
\<close>

theorem bounded_outputs:
  assumes "PixelCNN_forward net xs = (net', Inr ys)"
    and "img \<in> set ys" "ch \<in> set img" "row \<in> set ch" "y \<in> set row"
  shows "0 \<le> y \<and> y \<le> 1"
proof -
  from assms(1) obtain zs where "ys = map (map (map (map sigmoid))) zs"
    by (auto simp: PixelCNN_forward_def split: prod.splits sum.splits)
  with assms(2-5) obtain z where "y = sigmoid z" by auto
  then show ?thesis using sigmoid_bounds [of z] by simp
qed

theorem bounded_outputs_witness:
  "\<exists>net net'. PixelCNN_init 1 1 1 2 (\<lambda>_ _ _ _ _. 1) (\<lambda>_ _. 0) = Inr net \<and>
     PixelCNN_forward net [[[[3]]]] = (net', Inr [[[[1 / 2]]]]) \<and>
     (0::real) \<le> 1 / 2 \<and> (1 / 2 :: real) \<le> 1"
proof -
  obtain net where net: "PixelCNN_init 1 1 1 2 (\<lambda>_ _ _ _ _. 1) (\<lambda>_ _. 0) = Inr net"
    using PixelCNN_init_ok [of 1 1 1 2 "\<lambda>_ _ _ _ _. 1" "\<lambda>_ _. 0"] by auto
  then have ls: "layers net =
      [Masked \<lparr>in_channels = 1, out_channels = 1, kernel_size = (1, 1), padding = (0, 0),
               weight = [[[[1]]]], bias = [0], mask = [[[[0]]]]\<rparr>,
       ReLU,
       Conv \<lparr>in_channels = 1, out_channels = 1, kernel_size = (1, 1), padding = (0, 0),
               weight = [[[[1]]]], bias = [0]\<rparr>]"
    by (auto simp: PixelCNN_init_def MaskedConv2d_init_def Let_def Conv2d_init_def build_mask_def
        fill4_def zero_row_tail_def zero_rows_from_def zero_from_def Conv2d.defs MaskedConv2d.defs)
  obtain net' where f: "PixelCNN_forward net [[[[3]]]] = (net', Inr [[[[1 / 2]]]])"
    by (simp add: PixelCNN_forward_def ls MaskedConv2d_forward_def Conv2d_forward_def Let_def
        mul4_def img_height_def img_width_def conv2d_image_def out_size_def conv_at_def
        pad_get_def relu_def sigmoid_def)
  from bounded_outputs [OF f, of "[[[1 / 2]]]" "[[1 / 2]]" "[1 / 2]" "1 / 2"] net f
  show ?thesis by auto
qed

section \<open>Noninterference of one relaxed-mask layer\<close>

text \<open>
  Claim C6, as amended. For a MaskedConv2d layer of mask type 'B' whose padding is half
  the kernel size in each dimension (\<open>kernel_size // 2\<close>, the padding PixelCNN gives
  every masked layer) and two input batches of the same size whose \<open>n\<close>-th images agree
  at every position at or before \<open>(r, c)\<close> in raster order, both forward calls return
  and their outputs at sample \<open>n\<close>, position \<open>(r, c)\<close> are equal in every channel.
\<close>

theorem relaxed_mask_noninterference:
  assumes L: "MaskedConv2d_init cin cout (KH, KW) (KH div 2, KW div 2) ''B'' winit binit = Inr L"
    and pos: "0 < cin" "0 < H" "0 < W" and n: "n < N"
    and xs: "shape4 N cin H W xs" and xs': "shape4 N cin H W xs'"
    and agree: "agree_upto r c (xs ! n) (xs' ! n)"
    and out: "oc < cout" "r < out_size H (KH div 2) KH" "c < out_size W (KW div 2) KW"
  shows "\<exists>L' ys ys'. MaskedConv2d_forward L xs = (L', Inr ys) \<and>
           MaskedConv2d_forward L xs' = (L', Inr ys') \<and>
           shape4 N cout (out_size H (KH div 2) KH) (out_size W (KW div 2) KW) ys \<and>
           shape4 N cout (out_size H (KH div 2) KH) (out_size W (KW div 2) KW) ys' \<and>
           ys ! n ! oc ! r ! c = ys' ! n ! oc ! r ! c"
proof -
  have "if ''B'' = ''A'' then agree_before r c (xs ! n) (xs' ! n)
        else agree_upto r c (xs ! n) (xs' ! n)"
    using agree by simp
  from masked_layer_step [OF L pos n xs xs' this]
  obtain L' ys ys' where f: "MaskedConv2d_forward L xs = (L', Inr ys)"
      "MaskedConv2d_forward L xs' = (L', Inr ys')"
    and s: "same_upto n r c N cout (out_size H (KH div 2) KH) (out_size W (KW div 2) KW) ys ys'"
    by blast
  from s have sh: "shape4 N cout (out_size H (KH div 2) KH) (out_size W (KW div 2) KW) ys"
      "shape4 N cout (out_size H (KH div 2) KH) (out_size W (KW div 2) KW) ys'"
    and ag: "agree_upto r c (ys ! n) (ys' ! n)"
    by (simp_all add: same_upto_def)
  have "ys ! n ! oc ! r ! c = ys' ! n ! oc ! r ! c"
    by (rule agree_uptoD [OF ag shape4_nth [OF sh(1) n] out]) simp
  with f sh show ?thesis by blast
qed

theorem relaxed_mask_noninterference_witness:
  "\<exists>L L' ys ys'.
     MaskedConv2d_init 1 1 (3, 3) (1, 1) ''B'' (\<lambda>_ _ _ _. 1) (\<lambda>_. 0) = Inr L \<and>
     agree_upto 1 0 [[[1, 2], [3, 4]]] [[[1, 2], [3, 7]]] \<and>
     MaskedConv2d_forward L [[[[1, 2], [3, 4]]]] = (L', Inr ys) \<and>
     MaskedConv2d_forward L [[[[1, 2], [3, 7]]]] = (L', Inr ys') \<and>
     ys ! 0 ! 0 ! 1 ! 0 = ys' ! 0 ! 0 ! 1 ! 0"
proof -
  obtain L where L: "MaskedConv2d_init 1 1 (3, 3) (3 div 2, 3 div 2) ''B'' (\<lambda>_ _ _ _. 1) (\<lambda>_. 0) = Inr L"
    using MaskedConv2d_init_ok [of "''B''" 3 1 1 3 "(3 div 2, 3 div 2)" "\<lambda>_ _ _ _. 1" "\<lambda>_. 0"]
    by auto
  have sh: "shape4 1 1 2 2 [[[[1, 2], [3, 4::real]]]]" "shape4 1 1 2 2 [[[[1, 2], [3, 7::real]]]]"
    by (simp_all add: shape4_def shape3_def shape2_def)
  have ag: "agree_upto 1 0 ([[[[1, 2], [3, 4]]]] ! 0) ([[[[1, 2], [3, 7]]]] ! 0)"
    by (auto simp: agree_upto_iff raster_before_def nth_Cons' less_Suc_eq)
  have o: "1 < out_size 2 (3 div 2) 3" "0 < out_size 2 (3 div 2) 3"
    by (simp_all add: out_size_def)
  from relaxed_mask_noninterference [OF L _ _ _ _ sh ag _ o, of 0]
  obtain L' ys ys' where "MaskedConv2d_forward L [[[[1, 2], [3, 4]]]] = (L', Inr ys)"
      "MaskedConv2d_forward L [[[[1, 2], [3, 7]]]] = (L', Inr ys')"
      "ys ! 0 ! 0 ! 1 ! 0 = ys' ! 0 ! 0 ! 1 ! 0"
    by auto
  with L ag show ?thesis by auto
qed

text \<open>
  The claim as stated, for every MaskedConv2d layer of type 'B', fails for a layer
  built with the library's default padding 0: with a 3 x 3 kernel of ones, two 3 x 3
  images that agree at position \<open>(0, 0)\<close> and differ at \<open>(1, 1)\<close> give outputs 0 and 1
  at position \<open>(0, 0)\<close>.
\<close>

theorem relaxed_mask_unpadded_counterexample:
  "MaskedConv2d_init 1 1 (3, 3) (0, 0) ''B'' (\<lambda>_ _ _ _. 1) (\<lambda>_. 0) =
     Inr \<lparr>in_channels = 1, out_channels = 1, kernel_size = (3, 3), padding = (0, 0),
          weight = [[[[1, 1, 1], [1, 1, 1], [1, 1, 1]]]], bias = [0],
          mask = [[[[1, 1, 1], [1, 1, 0], [0, 0, 0]]]]\<rparr> \<and>
   agree_upto 0 0 [[[0, 0, 0], [0, 0, 0], [0, 0, 0]]] [[[0, 0, 0], [0, 1, 0], [0, 0, 0]]] \<and>
   snd (MaskedConv2d_forward
          (projr (MaskedConv2d_init 1 1 (3, 3) (0, 0) ''B'' (\<lambda>_ _ _ _. 1) (\<lambda>_. 0)))
          [[[[0, 0, 0], [0, 0, 0], [0, 0, 0]]]]) = Inr [[[[0]]]] \<and>
   snd (MaskedConv2d_forward
          (projr (MaskedConv2d_init 1 1 (3, 3) (0, 0) ''B'' (\<lambda>_ _ _ _. 1) (\<lambda>_. 0)))
          [[[[0, 0, 0], [0, 1, 0], [0, 0, 0]]]]) = Inr [[[[1]]]]"
proof -
  have L: "MaskedConv2d_init 1 1 (3, 3) (0, 0) ''B'' (\<lambda>_ _ _ _. 1) (\<lambda>_. 0) =
    Inr \<lparr>in_channels = 1, out_channels = 1, kernel_size = (3, 3), padding = (0, 0),
         weight = [[[[1, 1, 1], [1, 1, 1], [1, 1, 1]]]], bias = [0],
         mask = [[[[1, 1, 1], [1, 1, 0], [0, 0, 0]]]]\<rparr>"
    by (simp add: MaskedConv2d_init_def Conv2d_init_def Let_def build_mask_def fill4_def
        zero_row_tail_def zero_rows_from_def zero_from_def upt_3 Conv2d.defs MaskedConv2d.defs)
  have ag: "agree_upto 0 0 [[[0, 0, 0], [0, 0, 0], [0, 0, 0]]] [[[0, 0, 0], [0, 1, 0], [0, 0, 0]]]"
    by (auto simp: agree_upto_iff raster_before_def)
  show ?thesis
    unfolding L
    by (simp add: ag MaskedConv2d_forward_def Conv2d_forward_def Let_def mul4_def
        img_height_def img_width_def conv2d_image_def out_size_def conv_at_def pad_get_def upt_3)
qed

section \<open>The masks are constant\<close>

text \<open>
  Claim C7. A forward call of a masked layer leaves its mask as it was; a forward pass
  of the network, a training iteration and the whole training loop (whatever the
  optimizer does to the parameters, and whether or not a fault stops the loop) leave
  every mask as it was, and change nothing of a layer but its weight and bias.
\<close>

theorem mask_constancy:
  "mask (fst (MaskedConv2d_forward L xs)) = mask L \<and>
   masks (fst (PixelCNN_forward net xs)) = masks net \<and>
   masks (snd (fst (train_step opt (st, net) images))) = masks net \<and>
   masks (snd (fst (train opt (st, net) epochs))) = masks net \<and>
   map layer_fixed (layers (snd (fst (train opt (st, net) epochs)))) =
     map layer_fixed (layers net)"
proof -
  have "mask (fst (MaskedConv2d_forward L xs)) = mask L"
    by (simp add: MaskedConv2d_forward_def Let_def)
  moreover have "masks (fst (PixelCNN_forward net xs)) = masks net"
    by (rule masks_fixed [OF PixelCNN_forward_fixed]) (rule prod.collapse [symmetric])
  moreover have "masks (snd (fst (train_step opt (st, net) images))) = masks net"
    using masks_fixed [OF train_step_fixed [of opt "(st, net)" images, OF prod.collapse [symmetric]]]
    by simp
  moreover have "map layer_fixed (layers (snd (fst (train opt (st, net) epochs)))) =
      map layer_fixed (layers net)"
    using train_fixed [of opt "(st, net)" epochs, OF prod.collapse [symmetric]] by simp
  moreover from this have "masks (snd (fst (train opt (st, net) epochs))) = masks net"
    by (rule masks_fixed)
  ultimately show ?thesis by simp
qed

section \<open>Inference and save without training\<close>

text \<open>
  Claim C8, as amended. In a session in which the training cell has not run, the
  inference cell fails with a NameError on \<open>model\<close>, and the save cell fails with a
  NameError: on \<open>model\<close> when the import cell has bound \<open>torch\<close>, on \<open>torch\<close>
  otherwise. Neither cell produces output, and nothing but the failing name lookup
  stops them.
\<close>

theorem inference_and_save_need_training:
  assumes "session_without_training g"
  shows "snd (inference_cell g) = Inl (NameError ''model'') \<and>
         snd (save_cell g) = Inl (NameError (if g ''torch'' = None then ''torch'' else ''model''))"
proof -
  have m: "g ''model'' = None" by (rule session_without_training_model [OF assms])
  have "snd (inference_cell g) = Inl (NameError ''model'')"
    by (simp add: inference_cell_def Let_def need_def m)
  moreover have "snd (save_cell g) =
      Inl (NameError (if g ''torch'' = None then ''torch'' else ''model''))"
    by (cases "g ''torch''") (simp_all add: save_cell_def need_def m)
  ultimately show ?thesis by (rule conjI)
qed

theorem inference_and_save_need_training_witness:
  "session_without_training [''torch'' \<mapsto> Other, ''test_loader'' \<mapsto> Loader []] \<and>
   snd (inference_cell [''torch'' \<mapsto> Other, ''test_loader'' \<mapsto> Loader []]) =
     Inl (NameError ''model'') \<and>
   snd (save_cell [''torch'' \<mapsto> Other, ''test_loader'' \<mapsto> Loader []]) =
     Inl (NameError ''model'')"
proof -
  have s: "session_without_training [''torch'' \<mapsto> Other, ''test_loader'' \<mapsto> Loader []]"
    by (simp add: session_without_training_def)
  from inference_and_save_need_training [OF s] s show ?thesis by simp
qed

text \<open>
  The claim as stated names \<open>model\<close> as the missing name of both cells. In a fresh
  session, where no cell has run, the save cell fails on \<open>torch\<close> instead.
\<close>

theorem save_in_fresh_session_counterexample:
  "session_without_training Map.empty \<and>
   snd (save_cell Map.empty) = Inl (NameError ''torch'') \<and>
   snd (save_cell Map.empty) \<noteq> Inl (NameError ''model'')"
  by (simp add: session_without_training_def save_cell_def need_def)

section \<open>Repeated forward calls of a masked layer\<close>

text \<open>
  Claim C9. For a layer built by the MaskedConv2d constructor, with any weight and
  bias a parameter update may have stored in it, and for every input: the last of any
  number of successive forward calls leaves the same layer and returns the same
  result as the first call, and that result is the plain convolution of the input
  with the masked weight.
\<close>

theorem forward_masking_idempotent:
  assumes "MaskedConv2d_init cin cout ks pad mt winit binit = Inr L0"
  shows "repeat_forward m (L0\<lparr>weight := w, bias := b\<rparr>) xs =
           MaskedConv2d_forward (L0\<lparr>weight := w, bias := b\<rparr>) xs \<and>
         snd (MaskedConv2d_forward (L0\<lparr>weight := w, bias := b\<rparr>) xs) =
           Conv2d_forward (L0\<lparr>weight := mul4 w (mask L0), bias := b\<rparr>) xs"
proof -
  obtain H W where ks: "ks = (H, W)" by (cases ks)
  from MaskedConv2d_init_Inr(3) [OF assms [unfolded ks]]
  have "\<forall>a\<in>set (mask L0). \<forall>b\<in>set a. \<forall>c\<in>set b. \<forall>v\<in>set c. v = 0 \<or> v = 1"
    using build_mask_binary by simp
  then have "repeat_forward m (L0\<lparr>weight := w, bias := b\<rparr>) xs =
           MaskedConv2d_forward (L0\<lparr>weight := w, bias := b\<rparr>) xs"
    by (intro repeat_forward_same) simp
  moreover have "snd (MaskedConv2d_forward (L0\<lparr>weight := w, bias := b\<rparr>) xs) =
           Conv2d_forward (L0\<lparr>weight := mul4 w (mask L0), bias := b\<rparr>) xs"
    by (cases L0) (simp add: MaskedConv2d_forward_def Let_def)
  ultimately show ?thesis by (rule conjI)
qed

theorem forward_masking_idempotent_witness:
  "\<exists>L0. MaskedConv2d_init 1 1 (3, 3) (1, 1) ''A'' (\<lambda>_ _ _ _. 1) (\<lambda>_. 0) = Inr L0 \<and>
     repeat_forward 2 (L0\<lparr>weight := [[[[1, 2, 3], [4, 5, 6], [7, 8, 9]]]], bias := [1]\<rparr>) [[[[1, 2], [3, 4]]]] =
       MaskedConv2d_forward (L0\<lparr>weight := [[[[1, 2, 3], [4, 5, 6], [7, 8, 9]]]], bias := [1]\<rparr>) [[[[1, 2], [3, 4]]]] \<and>
     snd (MaskedConv2d_forward (L0\<lparr>weight := [[[[1, 2, 3], [4, 5, 6], [7, 8, 9]]]], bias := [1]\<rparr>) [[[[1, 2], [3, 4]]]]) =
       Conv2d_forward (L0\<lparr>weight := mul4 [[[[1, 2, 3], [4, 5, 6], [7, 8, 9]]]] (mask L0), bias := [1]\<rparr>) [[[[1, 2], [3, 4]]]]"
proof -
  obtain L0 where L0: "MaskedConv2d_init 1 1 (3, 3) (1, 1) ''A'' (\<lambda>_ _ _ _. 1) (\<lambda>_. 0) = Inr L0"
    using MaskedConv2d_init_ok [of "''A''" 3 1 1 3 "(1, 1)" "\<lambda>_ _ _ _. 1" "\<lambda>_. 0"] by auto
  from forward_masking_idempotent [OF L0, where m = 2
      and w = "[[[[1, 2, 3], [4, 5, 6], [7, 8, 9]]]]" and b = "[1]"
      and xs = "[[[[1, 2], [3, 4]]]]"] L0
  show ?thesis by blast
qed

section \<open>The assertion on the mask type\<close>

text \<open>
  Claim C10. Constructing a MaskedConv2d with a mask type other than 'A' or 'B' fails
  the assertion, and no layer (so no mask) is built; with mask type 'A' or 'B' the
  constructor never fails the assertion.
\<close>

theorem mask_type_validation:
  "(mt \<noteq> ''A'' \<and> mt \<noteq> ''B'' \<longrightarrow>
      MaskedConv2d_init cin cout ks pad mt winit binit = Inl (AssertionError mask_type_message))
   \<and> (mt = ''A'' \<or> mt = ''B'' \<longrightarrow>
      (\<forall>msg. MaskedConv2d_init cin cout ks pad mt winit binit \<noteq> Inl (AssertionError msg)))"
  by (auto simp: MaskedConv2d_init_def Let_def split: prod.splits)

theorem mask_type_validation_witness:
  "MaskedConv2d_init 1 1 (3, 3) (1, 1) ''C'' (\<lambda>_ _ _ _. 5) (\<lambda>_. 0)
     = Inl (AssertionError mask_type_message)
   \<and> MaskedConv2d_init 1 1 (3, 3) (1, 1) ''B'' (\<lambda>_ _ _ _. 5) (\<lambda>_. 0)
     \<noteq> Inl (AssertionError mask_type_message)"
  using mask_type_validation [of "''C''" 1 1 "(3, 3)" "(1, 1)" "\<lambda>_ _ _ _. 5" "\<lambda>_. 0"]
    mask_type_validation [of "''B''" 1 1 "(3, 3)" "(1, 1)" "\<lambda>_ _ _ _. 5" "\<lambda>_. 0"]
  by simp

end
